theory Spec2Isabelle
  imports Complex_Main "HOL-Library.Word"
begin

section \<open>JavaScript numbers\<close>

text \<open>
  A JavaScript \<^verbatim>\<open>number\<close> is an IEEE 754 binary64 value. The finite ones are
  modelled by the real number they denote, the three special values by constructors of
  their own. The two zeros are identified: no function below divides by a value whose
  sign of zero could be observed without squaring the quotient first.

  Every arithmetic operation of the source computes the exact result over the reals and
  rounds it to the nearest binary64 value, ties to even (\<open>rd\<close>). The spacing of the
  binary64 values around \<open>x\<close> is \<open>2\<close> to the power \<open>quantum_exp x\<close>: 52 binary digits
  below the leading one, and never below the subnormal spacing \<open>2 ^ - 1074\<close>.
  A rounded magnitude of \<open>2 ^ 1024\<close> or more overflows to an infinity.
\<close>

datatype jsnum = Num real | PosInf | NegInf | NaN

definition round_half_even :: "real \<Rightarrow> int" where
  "round_half_even t =
     (let f = \<lfloor>t\<rfloor>; d = t - of_int f in
      if d < 1 / 2 then f
      else if 1 / 2 < d then f + 1
      else if even f then f else f + 1)"

definition quantum_exp :: "real \<Rightarrow> int" where
  "quantum_exp x = max \<lfloor>log 2 \<bar>x\<bar>\<rfloor> (- 1022) - 52"

definition nearest64 :: "real \<Rightarrow> real" where
  "nearest64 x =
     2 powr of_int (quantum_exp x) *
     of_int (round_half_even (x / 2 powr of_int (quantum_exp x)))"

definition rd :: "real \<Rightarrow> jsnum" where
  "rd x =
     (if x = 0 then Num 0
      else let r = nearest64 x in
        if 2 ^ 1024 \<le> r then PosInf
        else if r \<le> - (2 ^ 1024) then NegInf
        else Num r)"

text \<open>
  The spacing of the binary64 values around \<open>t\<close> (its unit in the last place), and two
  reals that lie more than one such unit apart, both below \<open>2 ^ 1023\<close> in magnitude: their
  roundings are finite and different.
\<close>

definition ulp :: "real \<Rightarrow> real" where
  "ulp t = 2 powr of_int (quantum_exp t)"

definition separated :: "real \<Rightarrow> real \<Rightarrow> bool" where
  "separated s t \<longleftrightarrow>
     s + ulp s < t \<and> s + ulp t < t \<and> \<bar>s\<bar> < 2 ^ 1023 \<and> \<bar>t\<bar> < 2 ^ 1023"

text \<open>The comparisons \<^verbatim>\<open><=\<close> and \<^verbatim>\<open><\<close>: false as soon as an operand is NaN.\<close>

fun js_le :: "jsnum \<Rightarrow> jsnum \<Rightarrow> bool" where
  "js_le NaN _ = False"
| "js_le _ NaN = False"
| "js_le NegInf _ = True"
| "js_le _ PosInf = True"
| "js_le (Num a) (Num b) = (a \<le> b)"
| "js_le _ _ = False"

fun js_lt :: "jsnum \<Rightarrow> jsnum \<Rightarrow> bool" where
  "js_lt NaN _ = False"
| "js_lt _ NaN = False"
| "js_lt PosInf _ = False"
| "js_lt _ NegInf = False"
| "js_lt (Num a) (Num b) = (a < b)"
| "js_lt _ _ = True"

fun js_neg :: "jsnum \<Rightarrow> jsnum" where
  "js_neg (Num a) = Num (- a)"
| "js_neg PosInf = NegInf"
| "js_neg NegInf = PosInf"
| "js_neg NaN = NaN"

fun js_add :: "jsnum \<Rightarrow> jsnum \<Rightarrow> jsnum" where
  "js_add NaN _ = NaN"
| "js_add _ NaN = NaN"
| "js_add PosInf NegInf = NaN"
| "js_add NegInf PosInf = NaN"
| "js_add PosInf _ = PosInf"
| "js_add _ PosInf = PosInf"
| "js_add NegInf _ = NegInf"
| "js_add _ NegInf = NegInf"
| "js_add (Num a) (Num b) = rd (a + b)"

definition js_sub :: "jsnum \<Rightarrow> jsnum \<Rightarrow> jsnum" where
  "js_sub a b = js_add a (js_neg b)"

fun js_mul :: "jsnum \<Rightarrow> jsnum \<Rightarrow> jsnum" where
  "js_mul NaN _ = NaN"
| "js_mul _ NaN = NaN"
| "js_mul (Num a) (Num b) = rd (a * b)"
| "js_mul (Num a) PosInf = (if a = 0 then NaN else if 0 < a then PosInf else NegInf)"
| "js_mul (Num a) NegInf = (if a = 0 then NaN else if 0 < a then NegInf else PosInf)"
| "js_mul PosInf (Num b) = (if b = 0 then NaN else if 0 < b then PosInf else NegInf)"
| "js_mul NegInf (Num b) = (if b = 0 then NaN else if 0 < b then NegInf else PosInf)"
| "js_mul PosInf PosInf = PosInf"
| "js_mul PosInf NegInf = NegInf"
| "js_mul NegInf PosInf = NegInf"
| "js_mul NegInf NegInf = PosInf"

fun js_div :: "jsnum \<Rightarrow> jsnum \<Rightarrow> jsnum" where
  "js_div NaN _ = NaN"
| "js_div _ NaN = NaN"
| "js_div (Num a) (Num b) =
     (if b = 0 then (if a = 0 then NaN else if 0 < a then PosInf else NegInf)
      else rd (a / b))"
| "js_div (Num a) PosInf = Num 0"
| "js_div (Num a) NegInf = Num 0"
| "js_div PosInf (Num b) = (if 0 \<le> b then PosInf else NegInf)"
| "js_div NegInf (Num b) = (if 0 \<le> b then NegInf else PosInf)"
| "js_div _ _ = NaN"

text \<open>\<^verbatim>\<open>v ** 2\<close>, \<^verbatim>\<open>Math.sqrt\<close>, \<^verbatim>\<open>Math.max\<close>, \<^verbatim>\<open>Math.floor\<close> and \<^verbatim>\<open>Math.round\<close>
  (which rounds a half towards plus infinity); the square and the square root are taken
  as correctly rounded.\<close>

fun js_sq :: "jsnum \<Rightarrow> jsnum" where
  "js_sq (Num a) = rd (a * a)"
| "js_sq PosInf = PosInf"
| "js_sq NegInf = PosInf"
| "js_sq NaN = NaN"

fun js_sqrt :: "jsnum \<Rightarrow> jsnum" where
  "js_sqrt (Num a) = (if a < 0 then NaN else rd (sqrt a))"
| "js_sqrt PosInf = PosInf"
| "js_sqrt NegInf = NaN"
| "js_sqrt NaN = NaN"

fun js_max :: "jsnum \<Rightarrow> jsnum \<Rightarrow> jsnum" where
  "js_max NaN _ = NaN"
| "js_max _ NaN = NaN"
| "js_max PosInf _ = PosInf"
| "js_max _ PosInf = PosInf"
| "js_max NegInf b = b"
| "js_max a NegInf = a"
| "js_max (Num a) (Num b) = Num (max a b)"

fun js_floor :: "jsnum \<Rightarrow> jsnum" where
  "js_floor (Num a) = Num (of_int \<lfloor>a\<rfloor>)"
| "js_floor v = v"

fun js_round :: "jsnum \<Rightarrow> jsnum" where
  "js_round (Num a) = Num (of_int \<lfloor>a + 1 / 2\<rfloor>)"
| "js_round v = v"

fun isFinite :: "jsnum \<Rightarrow> bool" where
  "isFinite (Num a) = True"
| "isFinite _ = False"

subsection \<open>Rounding half to even\<close>

lemma rhe_of_int [simp]: "round_half_even (of_int k) = k"
  by (simp add: round_half_even_def)

lemma rhe_cases:
  "round_half_even t = \<lfloor>t\<rfloor> \<and> t - of_int \<lfloor>t\<rfloor> \<le> 1 / 2
   \<or> round_half_even t = \<lfloor>t\<rfloor> + 1 \<and> 1 / 2 \<le> t - of_int \<lfloor>t\<rfloor>"
  unfolding round_half_even_def Let_def by auto

lemma rhe_ge_int: "of_int k \<le> t \<Longrightarrow> k \<le> round_half_even t"
proof -
  assume "of_int k \<le> t"
  then have "k \<le> \<lfloor>t\<rfloor>" by (simp add: le_floor_iff)
  then show ?thesis using rhe_cases [of t] by linarith
qed

lemma rhe_le_int: "t \<le> of_int k \<Longrightarrow> round_half_even t \<le> k"
proof -
  assume le: "t \<le> of_int k"
  show ?thesis
  proof (cases "t = of_int k")
    case True
    then show ?thesis by simp
  next
    case False
    with le have "t < of_int k" by simp
    then have "\<lfloor>t\<rfloor> < k" by (simp add: floor_less_iff)
    then show ?thesis using rhe_cases [of t] by auto
  qed
qed

lemma rhe_mono: "s \<le> t \<Longrightarrow> round_half_even s \<le> round_half_even t"
proof -
  assume st: "s \<le> t"
  have fl: "\<lfloor>s\<rfloor> \<le> \<lfloor>t\<rfloor>" using st by (rule floor_mono)
  show ?thesis
  proof (cases "\<lfloor>s\<rfloor> = \<lfloor>t\<rfloor>")
    case True
    then show ?thesis using st unfolding round_half_even_def Let_def by auto
  next
    case False
    then have "\<lfloor>s\<rfloor> + 1 \<le> \<lfloor>t\<rfloor>" using fl by simp
    moreover have "round_half_even s \<le> \<lfloor>s\<rfloor> + 1"
      unfolding round_half_even_def Let_def by auto
    moreover have "\<lfloor>t\<rfloor> \<le> round_half_even t"
      unfolding round_half_even_def Let_def by auto
    ultimately show ?thesis by linarith
  qed
qed

lemma rhe_minus: "round_half_even (- t) = - round_half_even t"
proof (cases "t = of_int \<lfloor>t\<rfloor>")
  case True
  then have "round_half_even (- t) = round_half_even (of_int (- \<lfloor>t\<rfloor>))" by simp
  also have "\<dots> = - \<lfloor>t\<rfloor>" by (rule rhe_of_int)
  also have "\<dots> = - round_half_even (of_int \<lfloor>t\<rfloor>)" by simp
  finally show ?thesis using True by simp
next
  case False
  then have fm: "\<lfloor>- t\<rfloor> = - \<lfloor>t\<rfloor> - 1"
    by (simp add: floor_minus ceiling_altdef)
  have d: "t - of_int \<lfloor>t\<rfloor> \<noteq> 0" using False by simp
  have ev: "even (- \<lfloor>t\<rfloor> - 1) \<longleftrightarrow> odd \<lfloor>t\<rfloor>" by simp
  show ?thesis
    unfolding round_half_even_def Let_def fm ev
    using d by (simp add: field_simps)
qed

subsection \<open>The binade of a real and the nearest binary64 value\<close>

lemma floor_log2_bounds:
  assumes "0 < x"
  shows "2 powr of_int \<lfloor>log 2 x\<rfloor> \<le> x" and "x < 2 powr of_int (\<lfloor>log 2 x\<rfloor> + 1)"
proof -
  have "of_int \<lfloor>log 2 x\<rfloor> \<le> log 2 x" by simp
  then have "2 powr of_int \<lfloor>log 2 x\<rfloor> \<le> 2 powr log 2 x" by simp
  then show "2 powr of_int \<lfloor>log 2 x\<rfloor> \<le> x" using assms by simp
  have "log 2 x < of_int (\<lfloor>log 2 x\<rfloor> + 1)" by linarith
  then have "2 powr log 2 x < 2 powr of_int (\<lfloor>log 2 x\<rfloor> + 1)" by simp
  then show "x < 2 powr of_int (\<lfloor>log 2 x\<rfloor> + 1)" using assms by simp
qed

lemma powr_le_pos: "2 powr (a::real) \<le> x \<Longrightarrow> 0 < x"
  using powr_gt_zero [of 2 a] by linarith

lemma floor_log2_eq:
  assumes "2 powr of_int e \<le> x" "x < 2 powr of_int (e + 1)"
  shows "\<lfloor>log 2 x\<rfloor> = e"
proof -
  have pos: "0 < x" using assms(1) by (rule powr_le_pos)
  have a: "of_int e \<le> log 2 x" using assms(1) pos by (simp add: le_log_iff)
  have "log 2 x < of_int (e + 1)" using assms(2) pos by (subst log_less_iff) simp_all
  then have b: "log 2 x < of_int e + 1" by simp
  show ?thesis using a b by linarith
qed

lemma quantum_exp_minus [simp]: "quantum_exp (- x) = quantum_exp x"
  by (simp add: quantum_exp_def)

lemma nearest64_minus: "nearest64 (- x) = - nearest64 x"
  by (simp add: nearest64_def rhe_minus)

lemma quantum_exp_ge: "- 1074 \<le> quantum_exp x"
  by (simp add: quantum_exp_def)

lemma quantum_exp_mono:
  assumes "0 < x" "x \<le> y"
  shows "quantum_exp x \<le> quantum_exp y"
proof -
  have "log 2 x \<le> log 2 y" using assms by simp
  then have "\<lfloor>log 2 x\<rfloor> \<le> \<lfloor>log 2 y\<rfloor>" by (rule floor_mono)
  then show ?thesis using assms by (simp add: quantum_exp_def)
qed

lemma nearest64_upper:
  assumes "0 < x"
  shows "nearest64 x \<le> 2 powr of_int (quantum_exp x + 53)"
proof -
  let ?E = "quantum_exp x"
  let ?Q = "2 powr of_int ?E :: real"
  have Q: "0 < ?Q" by simp
  have "\<lfloor>log 2 x\<rfloor> + 1 \<le> ?E + 53" using assms by (simp add: quantum_exp_def)
  then have "2 powr of_int (\<lfloor>log 2 x\<rfloor> + 1) \<le> (2::real) powr of_int (?E + 53)"
    by simp
  with floor_log2_bounds(2) [OF assms] have "x \<le> 2 powr of_int (?E + 53)" by linarith
  also have "\<dots> = ?Q * 2 ^ 53" by (simp add: powr_add)
  finally have "x / ?Q \<le> of_int (2 ^ 53)" using Q by (simp add: field_simps)
  then have "round_half_even (x / ?Q) \<le> 2 ^ 53" by (rule rhe_le_int)
  then have "of_int (round_half_even (x / ?Q)) \<le> (2 ^ 53 :: real)"
    by (metis of_int_le_iff of_int_numeral of_int_power)
  then have "?Q * of_int (round_half_even (x / ?Q)) \<le> ?Q * 2 ^ 53"
    using Q by (simp only: mult_le_cancel_left_pos)
  then show ?thesis by (simp add: nearest64_def powr_add)
qed

lemma nearest64_lower:
  assumes "0 < x" "- 1074 < quantum_exp x"
  shows "2 powr of_int (quantum_exp x + 52) \<le> nearest64 x"
proof -
  let ?E = "quantum_exp x"
  let ?Q = "2 powr of_int ?E :: real"
  have Q: "0 < ?Q" by simp
  have "?E + 52 = \<lfloor>log 2 x\<rfloor>"
    using assms by (simp add: quantum_exp_def max_def split: if_splits)
  with floor_log2_bounds(1) [OF assms(1)] have "2 powr of_int (?E + 52) \<le> x" by simp
  moreover have "2 powr of_int (?E + 52) = ?Q * 2 ^ 52" by (simp add: powr_add)
  ultimately have "of_int (2 ^ 52) \<le> x / ?Q" using Q by (simp add: field_simps)
  then have "2 ^ 52 \<le> round_half_even (x / ?Q)" by (rule rhe_ge_int)
  then have "(2 ^ 52 :: real) \<le> of_int (round_half_even (x / ?Q))"
    by (metis of_int_le_iff of_int_numeral of_int_power)
  then have "?Q * 2 ^ 52 \<le> ?Q * of_int (round_half_even (x / ?Q))"
    using Q by (simp only: mult_le_cancel_left_pos)
  then show ?thesis by (simp add: nearest64_def powr_add)
qed

lemma nearest64_nonneg: "0 \<le> x \<Longrightarrow> 0 \<le> nearest64 x"
proof -
  assume x: "0 \<le> x"
  have "of_int 0 \<le> x / 2 powr of_int (quantum_exp x)" using x by simp
  then have "0 \<le> round_half_even (x / 2 powr of_int (quantum_exp x))" by (rule rhe_ge_int)
  then show ?thesis by (simp add: nearest64_def)
qed

lemma nearest64_mono_pos:
  assumes "0 < x" "x \<le> y"
  shows "nearest64 x \<le> nearest64 y"
proof (cases "quantum_exp x = quantum_exp y")
  case True
  let ?Q = "2 powr of_int (quantum_exp y) :: real"
  have "x / ?Q \<le> y / ?Q" using assms by (simp add: divide_right_mono)
  then have "round_half_even (x / ?Q) \<le> round_half_even (y / ?Q)" by (rule rhe_mono)
  then have "?Q * of_int (round_half_even (x / ?Q)) \<le> ?Q * of_int (round_half_even (y / ?Q))"
    by (simp add: mult_left_mono)
  then show ?thesis by (simp add: nearest64_def True)
next
  case False
  with quantum_exp_mono [OF assms] have lt: "quantum_exp x < quantum_exp y" by simp
  with quantum_exp_ge [of x] have "- 1074 < quantum_exp y" by linarith
  moreover have y: "0 < y" using assms by simp
  ultimately have "2 powr of_int (quantum_exp y + 52) \<le> nearest64 y"
    by (intro nearest64_lower)
  moreover have "nearest64 x \<le> 2 powr of_int (quantum_exp x + 53)"
    using assms(1) by (rule nearest64_upper)
  moreover have "2 powr of_int (quantum_exp x + 53) \<le> (2::real) powr of_int (quantum_exp y + 52)"
    using lt by simp
  ultimately show ?thesis by linarith
qed

lemma nearest64_zero [simp]: "nearest64 0 = 0"
  by (simp add: nearest64_def round_half_even_def)

lemma nearest64_mono: "x \<le> y \<Longrightarrow> nearest64 x \<le> nearest64 y"
proof -
  assume xy: "x \<le> y"
  consider "0 < x" | "y < 0" | "x \<le> 0" "0 \<le> y" by linarith
  then show ?thesis
  proof cases
    case 1
    then show ?thesis using xy by (rule nearest64_mono_pos)
  next
    case 2
    then have "nearest64 (- y) \<le> nearest64 (- x)" using xy by (intro nearest64_mono_pos) simp_all
    then show ?thesis by (simp add: nearest64_minus)
  next
    case 3
    have "0 \<le> nearest64 (- x)" using 3(1) by (intro nearest64_nonneg) simp
    then have "nearest64 x \<le> 0" by (simp add: nearest64_minus)
    moreover have "0 \<le> nearest64 y" using 3(2) by (rule nearest64_nonneg)
    ultimately show ?thesis by linarith
  qed
qed

text \<open>A value with at most 53 significant binary digits, on the binary64 grid, is its own
  rounding.\<close>

lemma nearest64_exact:
  assumes "\<bar>m\<bar> < 2 ^ 53" "- 1074 \<le> e"
  shows "nearest64 (of_int m * 2 powr of_int e) = of_int m * 2 powr of_int e"
proof (cases "m = 0")
  case True
  then show ?thesis by simp
next
  case False
  let ?x = "of_int m * 2 powr of_int e :: real"
  let ?E = "quantum_exp ?x"
  have ax: "\<bar>?x\<bar> = of_int \<bar>m\<bar> * 2 powr of_int e" by (simp add: abs_mult)
  have pos: "0 < \<bar>?x\<bar>" using False by simp
  have "of_int \<bar>m\<bar> < (2 ^ 53 :: real)" using assms(1)
    by (metis of_int_less_iff of_int_numeral of_int_power)
  then have "\<bar>?x\<bar> < 2 ^ 53 * 2 powr of_int e" unfolding ax by simp
  also have "\<dots> = 2 powr of_int (e + 53)" by (simp add: powr_add)
  finally have up: "\<bar>?x\<bar> < 2 powr of_int (e + 53)" .
  have "2 powr of_int \<lfloor>log 2 \<bar>?x\<bar>\<rfloor> \<le> \<bar>?x\<bar>" using pos by (rule floor_log2_bounds(1))
  with up have "2 powr of_int \<lfloor>log 2 \<bar>?x\<bar>\<rfloor> < (2::real) powr of_int (e + 53)" by linarith
  then have "\<lfloor>log 2 \<bar>?x\<bar>\<rfloor> < e + 53" by (simp only: powr_less_cancel_iff of_int_less_iff)
  then have Ee: "?E \<le> e" using assms(2) by (simp add: quantum_exp_def)
  then obtain k :: nat where k: "e = ?E + int k" by (metis zle_iff_zadd)
  define Q :: real where "Q = 2 powr of_int ?E"
  have Q: "0 < Q" by (simp add: Q_def)
  have "2 powr of_int e = 2 powr (of_int ?E + of_nat k)"
    by (subst k) simp
  also have "\<dots> = Q * (2::real) ^ k"
    by (simp only: powr_add Q_def) (simp add: powr_realpow)
  finally have pe: "2 powr of_int e = Q * (2::real) ^ k" .
  have "?x / Q = of_int (m * 2 ^ k)" unfolding pe using Q by simp
  then have "round_half_even (?x / Q) = m * 2 ^ k" by (simp only: rhe_of_int)
  then have "nearest64 ?x = Q * of_int (m * 2 ^ k)" by (simp only: nearest64_def Q_def)
  also have "\<dots> = of_int m * (Q * 2 ^ k)" by simp
  finally show ?thesis unfolding pe .
qed

subsection \<open>Rounding: monotone, exact on binary64 values\<close>

lemma rd_cases:
  "rd x = Num (nearest64 x) \<and> \<bar>nearest64 x\<bar> < 2 ^ 1024
   \<or> rd x = PosInf \<and> 2 ^ 1024 \<le> nearest64 x
   \<or> rd x = NegInf \<and> nearest64 x \<le> - (2 ^ 1024)"
  by (auto simp: rd_def Let_def)

lemma rd_mono: "x \<le> y \<Longrightarrow> js_le (rd x) (rd y)"
  using nearest64_mono [of x y] rd_cases [of x] rd_cases [of y]
  by (elim disjE conjE) simp_all

lemma rd_exact:
  assumes "\<bar>m\<bar> < 2 ^ 53" "- 1074 \<le> e" "e \<le> 971"
  shows "rd (of_int m * 2 powr of_int e) = Num (of_int m * 2 powr of_int e)"
proof -
  let ?x = "of_int m * 2 powr of_int e :: real"
  have n: "nearest64 ?x = ?x" using assms(1,2) by (rule nearest64_exact)
  have "of_int \<bar>m\<bar> < (2 ^ 53 :: real)" using assms(1)
    by (metis of_int_less_iff of_int_numeral of_int_power)
  moreover have "2 powr of_int e \<le> (2::real) powr of_int 971" using assms(3)
    by (simp only: powr_le_cancel_iff of_int_le_iff)
  then have "2 powr of_int e \<le> (2::real) ^ 971" by (simp add: powr_realpow)
  ultimately have "of_int \<bar>m\<bar> * 2 powr of_int e < (2 ^ 53 :: real) * 2 ^ 971"
    by (intro mult_less_le_imp_less) simp_all
  then have "\<bar>?x\<bar> < 2 ^ 1024" by (simp add: abs_mult)
  with n show ?thesis by (auto simp: rd_def Let_def)
qed

lemma rd_of_int: "\<bar>k\<bar> < 2 ^ 53 \<Longrightarrow> rd (of_int k) = Num (of_int k)"
  using rd_exact [of k 0] by simp

lemma rd_dyadic:
  "\<bar>k\<bar> < 2 ^ 53 \<Longrightarrow> j \<le> 1074 \<Longrightarrow> rd (of_int k / 2 ^ j) = Num (of_int k / 2 ^ j)"
  using rd_exact [of k "- int j"] by (simp add: powr_minus powr_realpow field_simps)

lemma rd_numeral [simp]: "(numeral n :: int) < 2 ^ 53 \<Longrightarrow> rd (numeral n) = Num (numeral n)"
  using rd_of_int [of "numeral n"] by simp

lemma rd_neg_numeral [simp]:
  "(numeral n :: int) < 2 ^ 53 \<Longrightarrow> rd (- numeral n) = Num (- numeral n)"
  using rd_of_int [of "- numeral n"] by simp

lemma rd_0 [simp]: "rd 0 = Num 0"
  by (simp add: rd_def)

lemma rd_1 [simp]: "rd 1 = Num 1"
  using rd_of_int [of 1] by simp

lemma rd_between:
  assumes "of_int a \<le> x" "x \<le> of_int b" "\<bar>a\<bar> < 2 ^ 53" "\<bar>b\<bar> < 2 ^ 53"
  shows "\<exists>r. rd x = Num r \<and> of_int a \<le> r \<and> r \<le> of_int b"
proof -
  have "js_le (rd (of_int a)) (rd x)" using assms(1) by (rule rd_mono)
  then have 1: "js_le (Num (of_int a)) (rd x)" using assms(3) by (simp add: rd_of_int)
  have "js_le (rd x) (rd (of_int b))" using assms(2) by (rule rd_mono)
  then have 2: "js_le (rd x) (Num (of_int b))" using assms(4) by (simp add: rd_of_int)
  show ?thesis using 1 2 by (cases "rd x") simp_all
qed

text \<open>The rounding of a real in the normal range, from its binade.\<close>

lemma rd_normal:
  assumes "2 powr of_int e \<le> \<bar>x\<bar>" "\<bar>x\<bar> < 2 powr of_int (e + 1)" "- 1022 \<le> e" "e \<le> 1022"
  shows "rd x = Num (2 powr of_int (e - 52) *
    of_int (round_half_even (x / 2 powr of_int (e - 52))))"
proof -
  have fl: "\<lfloor>log 2 \<bar>x\<bar>\<rfloor> = e" using assms(1,2) by (rule floor_log2_eq)
  then have qe: "quantum_exp x = e - 52" using assms(3) by (simp add: quantum_exp_def)
  have "0 < \<bar>x\<bar>" using assms(1) by (rule powr_le_pos)
  then have x0: "x \<noteq> 0" by simp
  have qe53: "quantum_exp x + 53 = e + 1" using qe by simp
  have up: "\<bar>nearest64 x\<bar> \<le> 2 powr of_int (e + 1)"
  proof (cases "0 < x")
    case True
    then have "nearest64 x \<le> 2 powr of_int (quantum_exp x + 53)" by (rule nearest64_upper)
    moreover have "0 \<le> nearest64 x" using True by (intro nearest64_nonneg) simp
    ultimately show ?thesis unfolding qe53 by linarith
  next
    case False
    then have "0 < - x" using x0 by simp
    then have "nearest64 (- x) \<le> 2 powr of_int (quantum_exp (- x) + 53)" "0 \<le> nearest64 (- x)"
      by (intro nearest64_upper, simp, intro nearest64_nonneg, simp)
    then show ?thesis unfolding quantum_exp_minus nearest64_minus qe53 by linarith
  qed
  have "2 powr of_int (e + 1) \<le> (2::real) powr of_int 1023"
    by (rule powr_mono) (use assms(4) in simp_all)
  also have "\<dots> < 2 ^ 1024" by (simp add: powr_realpow)
  finally have "\<bar>nearest64 x\<bar> < 2 ^ 1024" using up by linarith
  then have "rd x = Num (nearest64 x)" using x0 by (auto simp: rd_def Let_def)
  then show ?thesis by (simp add: nearest64_def qe)
qed

subsection \<open>Rounding error and strict monotonicity\<close>

lemma ulp_pos: "0 < ulp t"
  by (simp add: ulp_def)

lemma ulp_eq:
  assumes "2 powr of_int e \<le> \<bar>x\<bar>" "\<bar>x\<bar> < 2 powr of_int (e + 1)" "- 1022 \<le> e"
  shows "ulp x = 2 powr of_int (e - 52)"
proof -
  have "\<lfloor>log 2 \<bar>x\<bar>\<rfloor> = e" using assms(1,2) by (rule floor_log2_eq)
  then show ?thesis using assms(3) by (simp add: ulp_def quantum_exp_def)
qed

lemma rhe_error: "\<bar>of_int (round_half_even t) - t\<bar> \<le> 1 / 2"
proof -
  have "of_int \<lfloor>t\<rfloor> \<le> t" "t < of_int \<lfloor>t\<rfloor> + 1" by linarith+
  then show ?thesis using rhe_cases [of t] by auto
qed

lemma nearest64_error: "\<bar>nearest64 x - x\<bar> \<le> ulp x / 2"
proof -
  define Q :: real where "Q = 2 powr of_int (quantum_exp x)"
  have Q: "0 < Q" by (simp add: Q_def)
  define t where "t = x / Q"
  have x: "x = Q * t" using Q by (simp add: t_def)
  have "nearest64 x - x = Q * (of_int (round_half_even t) - t)"
    unfolding nearest64_def Q_def [symmetric] t_def [symmetric] using x
    by (simp add: algebra_simps)
  then have "\<bar>nearest64 x - x\<bar> = Q * \<bar>of_int (round_half_even t) - t\<bar>"
    using Q by (simp add: abs_mult)
  also have "\<dots> \<le> Q * (1 / 2)" using Q rhe_error [of t] by (intro mult_left_mono) simp_all
  finally show ?thesis by (simp add: ulp_def Q_def)
qed

lemma rd_finite:
  assumes "\<bar>x\<bar> < 2 ^ 1023"
  shows "rd x = Num (nearest64 x)"
proof -
  have e: "nearest64 (of_int 1 * 2 powr of_int 1023) = of_int 1 * 2 powr of_int 1023"
    by (rule nearest64_exact) simp_all
  have p: "(2::real) powr of_int 1023 = 2 ^ 1023" by (simp add: powr_realpow)
  have top: "nearest64 (2 ^ 1023) = 2 ^ 1023" using e unfolding p by simp
  have "nearest64 x \<le> nearest64 (2 ^ 1023)" using assms by (intro nearest64_mono) simp
  then have hi: "nearest64 x \<le> 2 ^ 1023" unfolding top .
  have "nearest64 (- (2 ^ 1023)) \<le> nearest64 x" using assms by (intro nearest64_mono) simp
  then have lo: "- (2 ^ 1023) \<le> nearest64 x" unfolding nearest64_minus top .
  have "(2::real) ^ 1023 < 2 ^ 1024" by (rule power_strict_increasing) simp_all
  then have "nearest64 x < 2 ^ 1024" "- (2 ^ 1024) < nearest64 x" using hi lo by linarith+
  then show ?thesis by (simp add: rd_def Let_def)
qed

lemma rd_strict:
  assumes "separated s t"
  shows "js_lt (rd s) (rd t)"
proof -
  have s: "rd s = Num (nearest64 s)" and t: "rd t = Num (nearest64 t)"
    using assms by (simp_all add: separated_def rd_finite)
  have "nearest64 s \<le> s + ulp s / 2" using nearest64_error [of s] by linarith
  moreover have "t - ulp t / 2 \<le> nearest64 t" using nearest64_error [of t] by linarith
  moreover have "ulp s < t - s" "ulp t < t - s" using assms by (simp_all add: separated_def)
  ultimately have "nearest64 s < nearest64 t" by linarith
  then show ?thesis by (simp add: s t)
qed

lemma ulp_2: "ulp 2 = 1 / 2 ^ 51"
  using ulp_eq [of 1 2] by (simp add: powr_minus)

lemma ulp_4: "ulp 4 = 1 / 2 ^ 50"
  using ulp_eq [of 2 4] by (simp add: powr_minus)

lemma ulp_5_2: "ulp (5 / 2) = 1 / 2 ^ 51"
  using ulp_eq [of 1 "5 / 2"] by (simp add: powr_minus)

lemma ulp_5: "ulp 5 = 1 / 2 ^ 50"
  using ulp_eq [of 2 5] by (simp add: powr_minus)

section \<open>Offset model: \<^verbatim>\<open>computeMaxOffset\<close>\<close>

text \<open>
  \<^verbatim>\<open>TrajectoryParams\<close> and \<^verbatim>\<open>MaxOffset\<close> are declared in the trajectory module's
  \<^verbatim>\<open>types\<close> file; \<^verbatim>\<open>computeMaxOffset\<close> reads the two fields below, and any further
  field lives in the extension part of the record. The fields \<^verbatim>\<open>x\<close>, \<^verbatim>\<open>y\<close>, \<^verbatim>\<open>z\<close>
  of the result are named \<open>off_x\<close>, \<open>off_y\<close>, \<open>off_z\<close>. The local \<^verbatim>\<open>diagonal\<close> of the
  source is a definition of its own.
\<close>

record TrajectoryParams =
  maxDisparity :: jsnum
  maxZoom :: jsnum

record MaxOffset =
  off_x :: jsnum
  off_y :: jsnum
  off_z :: jsnum

definition diagonal :: "jsnum \<times> jsnum \<Rightarrow> jsnum \<Rightarrow> jsnum" where
  "diagonal resolutionPx focalLengthPx =
     (case resolutionPx of (width, height) \<Rightarrow>
        js_sqrt (js_add (js_sq (js_div width focalLengthPx))
                        (js_sq (js_div height focalLengthPx))))"

definition computeMaxOffset ::
  "jsnum \<Rightarrow> jsnum \<times> jsnum \<Rightarrow> jsnum \<Rightarrow> 'a TrajectoryParams_scheme \<Rightarrow> MaxOffset" where
  "computeMaxOffset min_depth resolutionPx focalLengthPx params =
     (let maxLateralOffset =
            js_mul (js_mul (maxDisparity params) (diagonal resolutionPx focalLengthPx)) min_depth;
          maxMedialOffset = js_mul (maxZoom params) min_depth
      in \<lparr>off_x = maxLateralOffset, off_y = maxLateralOffset, off_z = maxMedialOffset\<rparr>)"

text \<open>The clamp the specification asks of the function: a zero or negative minimum
  depth is replaced by a positive floor before use.\<close>

definition spec_computeMaxOffset ::
  "jsnum \<Rightarrow> jsnum \<Rightarrow> jsnum \<times> jsnum \<Rightarrow> jsnum \<Rightarrow> 'a TrajectoryParams_scheme \<Rightarrow> MaxOffset" where
  "spec_computeMaxOffset depth_floor min_depth resolutionPx focalLengthPx params =
     computeMaxOffset (if js_le min_depth (Num 0) then depth_floor else min_depth)
       resolutionPx focalLengthPx params"

text \<open>
  The bounding-box branch of \<^verbatim>\<open>GaussianViewer.setupCameraForScene\<close>: from
  \<^verbatim>\<open>box.min.z\<close> and \<^verbatim>\<open>box.max.z\<close> it assigns \<^verbatim>\<open>this.minDepth\<close> and
  \<^verbatim>\<open>this.depthFocus\<close>. \<open>spec_bbox_focus\<close> is the focus as the specification words
  it, from the clamped near depth.
\<close>

record DepthSetup =
  minDepth :: jsnum
  depthFocus :: jsnum

definition setupCameraForScene_bbox :: "jsnum \<Rightarrow> jsnum \<Rightarrow> DepthSetup" where
  "setupCameraForScene_bbox minZ maxZ =
     \<lparr>minDepth = js_max (rd (1 / 10)) minZ,
      depthFocus = js_max (rd 2) (js_add minZ (js_mul (rd (1 / 10)) (js_sub maxZ minZ)))\<rparr>"

definition spec_bbox_focus :: "jsnum \<Rightarrow> jsnum \<Rightarrow> jsnum" where
  "spec_bbox_focus minZ maxZ =
     (let near = js_max (rd (1 / 10)) minZ
      in js_max (rd 2) (js_add near (js_mul (rd (1 / 10)) (js_sub maxZ minZ))))"

subsection \<open>Facts about the operations\<close>

lemma diagonal_640_480: "diagonal (Num 640, Num 480) (Num 640) = Num (5 / 4)"
proof -
  have a: "rd (3 / 4) = Num (3 / 4)" using rd_dyadic [of 3 2] by simp
  have b: "rd (9 / 16) = Num (9 / 16)" using rd_dyadic [of 9 4] by simp
  have c: "rd (25 / 16) = Num (25 / 16)" using rd_dyadic [of 25 4] by simp
  have "sqrt (25 / 16) = sqrt ((5 / 4)\<^sup>2)" by (simp add: power2_eq_square)
  also have "\<dots> = 5 / 4" by simp
  finally have s: "sqrt (25 / 16) = 5 / 4" .
  have d: "rd (5 / 4) = Num (5 / 4)" using rd_dyadic [of 5 2] by simp
  show ?thesis by (simp add: diagonal_def a b c s d)
qed

lemma rd_not_NaN [simp]: "rd x \<noteq> NaN"
  using rd_cases [of x] by auto

lemma rd_nonneg: "0 \<le> x \<Longrightarrow> rd x = Num r \<Longrightarrow> 0 \<le> r"
  using rd_cases [of x] nearest64_nonneg [of x] by auto

lemma rd_tenth: "rd (1 / 10) = Num (3602879701896397 / 2 ^ 55)"
proof -
  have "rd (1 / 10) = Num (2 powr of_int (- 4 - 52) *
      of_int (round_half_even ((1 / 10) / 2 powr of_int (- 4 - 52))))"
    by (rule rd_normal) (simp_all add: powr_minus)
  also have "(1 / 10) / 2 powr of_int (- 4 - 52) = (36028797018963968 / 5 :: real)"
    by (simp add: powr_minus)
  also have "round_half_even (36028797018963968 / 5) = 7205759403792794"
    by (simp add: round_half_even_def)
  finally show ?thesis by (simp add: powr_minus)
qed

lemma rd_half: "rd (1 / 2) = Num (1 / 2)"
  using rd_dyadic [of 1 1] by simp

lemma js_le_NegInf_rd [simp]: "js_le NegInf (rd x)"
  by (cases "rd x") (use rd_not_NaN [of x] in simp_all)

lemma js_le_rd_PosInf [simp]: "js_le (rd x) PosInf"
  by (cases "rd x") (use rd_not_NaN [of x] in simp_all)

lemma js_le_mul_right:
  assumes "js_le u v" "0 < m"
  shows "js_le (js_mul u (Num m)) (js_mul v (Num m))"
proof (cases u)
  case (Num a)
  note u = this
  show ?thesis
  proof (cases v)
    case (Num b)
    with u assms have "a * m \<le> b * m" by simp
    then show ?thesis using Num u by (simp add: rd_mono)
  qed (use u assms in simp_all)
qed (use assms in \<open>cases v; simp\<close>)+

lemma js_le_mul_left_const:
  assumes "a \<le> a'" "0 \<le> d"
  shows "js_le (js_mul (Num a) (Num d)) (js_mul (Num a') (Num d))"
  using assms by (simp add: rd_mono mult_right_mono)

lemma js_sqrt_nonneg: "js_sqrt v = Num d \<Longrightarrow> 0 \<le> d"
proof (cases v)
  case (Num a)
  assume "js_sqrt v = Num d"
  with Num have "0 \<le> sqrt a" "rd (sqrt a) = Num d" by (simp_all split: if_splits)
  then show ?thesis by (rule rd_nonneg)
qed simp_all

lemma diagonal_nonneg: "diagonal res f = Num d \<Longrightarrow> 0 \<le> d"
  unfolding diagonal_def by (auto split: prod.splits dest: js_sqrt_nonneg)

subsection \<open>The offset bounds\<close>

text \<open>
  C3 (amended). \<^verbatim>\<open>computeMaxOffset\<close> returns
  \<open>x = maxDisparity * sqrt ((width / f)\<^sup>2 + (height / f)\<^sup>2) * minDepth\<close>, \<open>y\<close> the same
  value and \<open>z = maxZoom * minDepth\<close>, with \<open>minDepth\<close> used as it is passed: the function
  has no clamp (its callers pass \<^verbatim>\<open>Math.max(0.1, ...)\<close>). It agrees with the clamping
  function of the specification, whatever the floor, whenever \<open>minDepth\<close> is not zero
  or negative.
\<close>

theorem computeMaxOffset_unclamped:
  "(let r = computeMaxOffset min_depth (width, height) focalLengthPx params;
        diag = js_sqrt (js_add (js_sq (js_div width focalLengthPx))
                               (js_sq (js_div height focalLengthPx)))
    in off_x r = js_mul (js_mul (maxDisparity params) diag) min_depth
       \<and> off_y r = off_x r
       \<and> off_z r = js_mul (maxZoom params) min_depth)
   \<and> (\<not> js_le min_depth (Num 0) \<longrightarrow>
        computeMaxOffset min_depth (width, height) focalLengthPx params =
        spec_computeMaxOffset depth_floor min_depth (width, height) focalLengthPx params)"
  by (simp add: computeMaxOffset_def spec_computeMaxOffset_def diagonal_def Let_def)

theorem computeMaxOffset_unclamped_witness:
  "\<not> js_le (Num 2) (Num 0)
   \<and> computeMaxOffset (Num 2) (Num 640, Num 480) (Num 640) \<lparr>maxDisparity = Num 1, maxZoom = Num 1\<rparr> =
     spec_computeMaxOffset (Num 1) (Num 2) (Num 640, Num 480) (Num 640)
       \<lparr>maxDisparity = Num 1, maxZoom = Num 1\<rparr>"
  using computeMaxOffset_unclamped [of "Num 2" "Num 640" "Num 480" "Num 640"
      "\<lparr>maxDisparity = Num 1, maxZoom = Num 1\<rparr>" "Num 1"]
  by simp

text \<open>With a minimum depth of zero the envelope is all zero.\<close>

theorem computeMaxOffset_zero_depth:
  "computeMaxOffset (Num 0) (Num 640, Num 480) (Num 640) \<lparr>maxDisparity = Num 1, maxZoom = Num 1\<rparr>
   = \<lparr>off_x = Num 0, off_y = Num 0, off_z = Num 0\<rparr>"
  using rd_dyadic [of 5 2] by (simp add: computeMaxOffset_def diagonal_640_480 Let_def)

text \<open>
  C4 (amended). For finite values \<open>a \<le> a'\<close> of \<open>maxDisparity\<close>, a finite minimum depth
  \<open>m\<close> above zero and a finite diagonal \<open>d\<close>, the larger \<open>maxDisparity\<close> never gives a
  smaller \<open>x\<close> or \<open>y\<close> and leaves \<open>z\<close> as it is; \<open>x\<close> and \<open>y\<close> are strictly larger
  whenever the two exact products of the last multiplication, \<open>q * m\<close> and \<open>q' * m\<close> with
  \<open>q\<close> and \<open>q'\<close> the rounded \<open>a * d\<close> and \<open>a' * d\<close>, are below \<open>2 ^ 1023\<close> in magnitude and
  lie more than one unit in the last place apart. For finite values \<open>a \<le> a'\<close> of
  \<open>maxZoom\<close> the larger one never gives a smaller \<open>z\<close> and leaves \<open>x\<close> and \<open>y\<close> as they
  are; \<open>z\<close> is strictly larger whenever \<open>a * m\<close> and \<open>a' * m\<close> are so separated.
\<close>

theorem computeMaxOffset_monotone:
  assumes "a \<le> a'" and "0 < m" and "diagonal res f = Num d"
  shows "js_le (off_x (computeMaxOffset (Num m) res f (p\<lparr>maxDisparity := Num a\<rparr>)))
               (off_x (computeMaxOffset (Num m) res f (p\<lparr>maxDisparity := Num a'\<rparr>)))
       \<and> js_le (off_y (computeMaxOffset (Num m) res f (p\<lparr>maxDisparity := Num a\<rparr>)))
               (off_y (computeMaxOffset (Num m) res f (p\<lparr>maxDisparity := Num a'\<rparr>)))
       \<and> off_z (computeMaxOffset (Num m) res f (p\<lparr>maxDisparity := Num a\<rparr>)) =
         off_z (computeMaxOffset (Num m) res f (p\<lparr>maxDisparity := Num a'\<rparr>))
       \<and> js_le (off_z (computeMaxOffset (Num m) res f (p\<lparr>maxZoom := Num a\<rparr>)))
               (off_z (computeMaxOffset (Num m) res f (p\<lparr>maxZoom := Num a'\<rparr>)))
       \<and> off_x (computeMaxOffset (Num m) res f (p\<lparr>maxZoom := Num a\<rparr>)) =
         off_x (computeMaxOffset (Num m) res f (p\<lparr>maxZoom := Num a'\<rparr>))
       \<and> off_y (computeMaxOffset (Num m) res f (p\<lparr>maxZoom := Num a\<rparr>)) =
         off_y (computeMaxOffset (Num m) res f (p\<lparr>maxZoom := Num a'\<rparr>))
       \<and> (\<forall>q q'. js_mul (Num a) (Num d) = Num q \<and> js_mul (Num a') (Num d) = Num q'
              \<and> separated (q * m) (q' * m) \<longrightarrow>
            js_lt (off_x (computeMaxOffset (Num m) res f (p\<lparr>maxDisparity := Num a\<rparr>)))
                  (off_x (computeMaxOffset (Num m) res f (p\<lparr>maxDisparity := Num a'\<rparr>)))
            \<and> js_lt (off_y (computeMaxOffset (Num m) res f (p\<lparr>maxDisparity := Num a\<rparr>)))
                    (off_y (computeMaxOffset (Num m) res f (p\<lparr>maxDisparity := Num a'\<rparr>))))
       \<and> (separated (a * m) (a' * m) \<longrightarrow>
            js_lt (off_z (computeMaxOffset (Num m) res f (p\<lparr>maxZoom := Num a\<rparr>)))
                  (off_z (computeMaxOffset (Num m) res f (p\<lparr>maxZoom := Num a'\<rparr>))))"
proof -
  have d: "0 \<le> d" using assms(3) by (rule diagonal_nonneg)
  have "js_le (js_mul (Num a) (Num d)) (js_mul (Num a') (Num d))"
    using assms(1) d by (rule js_le_mul_left_const)
  then have lat: "js_le (js_mul (js_mul (Num a) (Num d)) (Num m))
                        (js_mul (js_mul (Num a') (Num d)) (Num m))"
    using assms(2) by (rule js_le_mul_right)
  have med: "js_le (js_mul (Num a) (Num m)) (js_mul (Num a') (Num m))"
    using assms(1,2) by (simp add: rd_mono)
  have slat: "js_lt (js_mul (js_mul (Num a) (Num d)) (Num m))
                    (js_mul (js_mul (Num a') (Num d)) (Num m))"
    if "js_mul (Num a) (Num d) = Num q" "js_mul (Num a') (Num d) = Num q'"
       "separated (q * m) (q' * m)" for q q'
    using that rd_strict [of "q * m" "q' * m"] by simp
  have smed: "js_lt (js_mul (Num a) (Num m)) (js_mul (Num a') (Num m))"
    if "separated (a * m) (a' * m)"
    using that rd_strict [of "a * m" "a' * m"] by simp
  show ?thesis using lat med slat smed
    by (simp add: computeMaxOffset_def assms(3) Let_def)
qed

theorem computeMaxOffset_monotone_witness:
  "(1::real) \<le> 2 \<and> (0::real) < 2 \<and> diagonal (Num 640, Num 480) (Num 640) = Num (5 / 4)
   \<and> js_mul (Num 1) (Num (5 / 4)) = Num (5 / 4) \<and> js_mul (Num 2) (Num (5 / 4)) = Num (5 / 2)
   \<and> separated (5 / 4 * 2) (5 / 2 * 2) \<and> separated (1 * 2) (2 * 2)
   \<and> js_le (off_x (computeMaxOffset (Num 2) (Num 640, Num 480) (Num 640)
                (\<lparr>maxDisparity = Num 1, maxZoom = Num 1\<rparr>\<lparr>maxDisparity := Num 1\<rparr>)))
            (off_x (computeMaxOffset (Num 2) (Num 640, Num 480) (Num 640)
                (\<lparr>maxDisparity = Num 1, maxZoom = Num 1\<rparr>\<lparr>maxDisparity := Num 2\<rparr>)))
   \<and> js_lt (off_x (computeMaxOffset (Num 2) (Num 640, Num 480) (Num 640)
                (\<lparr>maxDisparity = Num 1, maxZoom = Num 1\<rparr>\<lparr>maxDisparity := Num 1\<rparr>)))
            (off_x (computeMaxOffset (Num 2) (Num 640, Num 480) (Num 640)
                (\<lparr>maxDisparity = Num 1, maxZoom = Num 1\<rparr>\<lparr>maxDisparity := Num 2\<rparr>)))
   \<and> js_lt (off_z (computeMaxOffset (Num 2) (Num 640, Num 480) (Num 640)
                (\<lparr>maxDisparity = Num 1, maxZoom = Num 1\<rparr>\<lparr>maxZoom := Num 1\<rparr>)))
            (off_z (computeMaxOffset (Num 2) (Num 640, Num 480) (Num 640)
                (\<lparr>maxDisparity = Num 1, maxZoom = Num 1\<rparr>\<lparr>maxZoom := Num 2\<rparr>)))"
proof -
  have h1: "(1::real) \<le> 2" and h2: "(0::real) < 2" by simp_all
  have q: "js_mul (Num 1) (Num (5 / 4)) = Num (5 / 4)" "js_mul (Num 2) (Num (5 / 4)) = Num (5 / 2)"
    using rd_dyadic [of 5 2] rd_dyadic [of 5 1] by simp_all
  have s1: "separated (5 / 4 * 2) (5 / 2 * 2)"
    by (simp add: separated_def ulp_5_2 ulp_5)
  have s2: "separated (1 * 2) (2 * 2)"
    by (simp add: separated_def ulp_2 ulp_4)
  note m = computeMaxOffset_monotone [OF h1 h2 diagonal_640_480,
        of "\<lparr>maxDisparity = Num 1, maxZoom = Num 1\<rparr>"]
  have x: "js_le (off_x (computeMaxOffset (Num 2) (Num 640, Num 480) (Num 640)
                (\<lparr>maxDisparity = Num 1, maxZoom = Num 1\<rparr>\<lparr>maxDisparity := Num 1\<rparr>)))
            (off_x (computeMaxOffset (Num 2) (Num 640, Num 480) (Num 640)
                (\<lparr>maxDisparity = Num 1, maxZoom = Num 1\<rparr>\<lparr>maxDisparity := Num 2\<rparr>)))"
    using m by (rule conjunct1)
  have sx: "js_lt (off_x (computeMaxOffset (Num 2) (Num 640, Num 480) (Num 640)
                (\<lparr>maxDisparity = Num 1, maxZoom = Num 1\<rparr>\<lparr>maxDisparity := Num 1\<rparr>)))
            (off_x (computeMaxOffset (Num 2) (Num 640, Num 480) (Num 640)
                (\<lparr>maxDisparity = Num 1, maxZoom = Num 1\<rparr>\<lparr>maxDisparity := Num 2\<rparr>)))"
    using m q s1 by blast
  have sz: "js_lt (off_z (computeMaxOffset (Num 2) (Num 640, Num 480) (Num 640)
                (\<lparr>maxDisparity = Num 1, maxZoom = Num 1\<rparr>\<lparr>maxZoom := Num 1\<rparr>)))
            (off_z (computeMaxOffset (Num 2) (Num 640, Num 480) (Num 640)
                (\<lparr>maxDisparity = Num 1, maxZoom = Num 1\<rparr>\<lparr>maxZoom := Num 2\<rparr>)))"
    using m s2 by blast
  show ?thesis using h1 h2 diagonal_640_480 q s1 s2 x sx sz by blast
qed

text \<open>
  The increase is not strict: with a minimum depth of zero both lateral bounds are zero,
  and with a minimum depth of \<open>3 / 4\<close> two neighbouring binary64 values of \<open>maxZoom\<close>
  round to the same product.
\<close>

lemma zoom_collision:
  "rd (6755399441055746 / 2 ^ 52 * (3 / 4)) = Num (5066549580791810 / 2 ^ 52)"
  "rd (6755399441055747 / 2 ^ 52 * (3 / 4)) = Num (5066549580791810 / 2 ^ 52)"
proof -
  have "rd (6755399441055746 / 2 ^ 52 * (3 / 4)) = Num (2 powr of_int (0 - 52) *
      of_int (round_half_even ((6755399441055746 / 2 ^ 52 * (3 / 4)) / 2 powr of_int (0 - 52))))"
    by (rule rd_normal) simp_all
  also have "(6755399441055746 / 2 ^ 52 * (3 / 4)) / 2 powr of_int (0 - 52) = (10133099161583619 / 2 :: real)"
    by (simp add: powr_minus)
  also have "round_half_even (10133099161583619 / 2) = 5066549580791810"
    by (simp add: round_half_even_def)
  finally show "rd (6755399441055746 / 2 ^ 52 * (3 / 4)) = Num (5066549580791810 / 2 ^ 52)"
    by (simp add: powr_minus)
  have "rd (6755399441055747 / 2 ^ 52 * (3 / 4)) = Num (2 powr of_int (0 - 52) *
      of_int (round_half_even ((6755399441055747 / 2 ^ 52 * (3 / 4)) / 2 powr of_int (0 - 52))))"
    by (rule rd_normal) simp_all
  also have "(6755399441055747 / 2 ^ 52 * (3 / 4)) / 2 powr of_int (0 - 52) = (20266198323167241 / 4 :: real)"
    by (simp add: powr_minus)
  also have "round_half_even (20266198323167241 / 4) = 5066549580791810"
    by (simp add: round_half_even_def)
  finally show "rd (6755399441055747 / 2 ^ 52 * (3 / 4)) = Num (5066549580791810 / 2 ^ 52)"
    by (simp add: powr_minus)
qed

theorem computeMaxOffset_not_strict:
  "\<not> js_lt (off_x (computeMaxOffset (Num 0) (Num 640, Num 480) (Num 640)
                 \<lparr>maxDisparity = Num 1, maxZoom = Num 1\<rparr>))
             (off_x (computeMaxOffset (Num 0) (Num 640, Num 480) (Num 640)
                 \<lparr>maxDisparity = Num 2, maxZoom = Num 1\<rparr>))
   \<and> \<not> js_lt (off_z (computeMaxOffset (Num (3 / 4)) (Num 640, Num 480) (Num 640)
                 \<lparr>maxDisparity = Num 1, maxZoom = Num (6755399441055746 / 2 ^ 52)\<rparr>))
             (off_z (computeMaxOffset (Num (3 / 4)) (Num 640, Num 480) (Num 640)
                 \<lparr>maxDisparity = Num 1, maxZoom = Num (6755399441055747 / 2 ^ 52)\<rparr>))"
proof -
  have a: "rd (5 / 4) = Num (5 / 4)" "rd (5 / 2) = Num (5 / 2)"
    using rd_dyadic [of 5 2] rd_dyadic [of 5 1] by simp_all
  have "off_x (computeMaxOffset (Num 0) (Num 640, Num 480) (Num 640)
                 \<lparr>maxDisparity = Num 1, maxZoom = Num 1\<rparr>) = Num 0"
       "off_x (computeMaxOffset (Num 0) (Num 640, Num 480) (Num 640)
                 \<lparr>maxDisparity = Num 2, maxZoom = Num 1\<rparr>) = Num 0"
    by (simp_all add: computeMaxOffset_def diagonal_640_480 Let_def a)
  moreover have "off_z (computeMaxOffset (Num (3 / 4)) (Num 640, Num 480) (Num 640)
                 \<lparr>maxDisparity = Num 1, maxZoom = Num (6755399441055746 / 2 ^ 52)\<rparr>)
       = Num (5066549580791810 / 2 ^ 52)"
    using zoom_collision(1) by (simp add: computeMaxOffset_def Let_def)
  moreover have "off_z (computeMaxOffset (Num (3 / 4)) (Num 640, Num 480) (Num 640)
                 \<lparr>maxDisparity = Num 1, maxZoom = Num (6755399441055747 / 2 ^ 52)\<rparr>)
       = Num (5066549580791810 / 2 ^ 52)"
    using zoom_collision(2) by (simp add: computeMaxOffset_def Let_def)
  ultimately show ?thesis by simp
qed

subsection \<open>Depth statistics from the bounding box\<close>

lemma js_max_absorb: "js_le (Num c) v \<Longrightarrow> js_max (Num c) v = v"
  by (cases v) (simp_all add: max_def)

text \<open>
  C9 (amended). In the bounding-box branch \<open>minDepth = max 0.1 minZ\<close> and
  \<open>depthFocus = max 2.0 (minZ + 0.1 * (maxZ - minZ))\<close>: the focus starts from the box
  minimum itself, not from the clamped near value. The two agree when the box minimum is
  at least \<open>0.1\<close>.
\<close>

theorem setupCameraForScene_bbox_focus:
  "minDepth (setupCameraForScene_bbox minZ maxZ) = js_max (rd (1 / 10)) minZ
   \<and> depthFocus (setupCameraForScene_bbox minZ maxZ) =
       js_max (rd 2) (js_add minZ (js_mul (rd (1 / 10)) (js_sub maxZ minZ)))
   \<and> (js_le (rd (1 / 10)) minZ \<longrightarrow>
        depthFocus (setupCameraForScene_bbox minZ maxZ) = spec_bbox_focus minZ maxZ)"
  by (auto simp: setupCameraForScene_bbox_def spec_bbox_focus_def rd_tenth js_max_absorb)

theorem setupCameraForScene_bbox_focus_witness:
  "js_le (rd (1 / 10)) (Num 1)
   \<and> depthFocus (setupCameraForScene_bbox (Num 1) (Num 33)) = spec_bbox_focus (Num 1) (Num 33)"
  using setupCameraForScene_bbox_focus [of "Num 1" "Num 33", THEN conjunct2, THEN conjunct2]
  by (simp add: rd_tenth)

text \<open>For the box from \<open>- 16\<close> to \<open>16\<close> the source gives the focus \<open>2\<close>, the formula
  from the clamped near value more than \<open>3\<close>.\<close>

theorem setupCameraForScene_bbox_focus_unclamped:
  "depthFocus (setupCameraForScene_bbox (Num (- 16)) (Num 16)) = Num 2
   \<and> spec_bbox_focus (Num (- 16)) (Num 16) \<noteq> Num 2"
proof -
  have m: "rd (3602879701896397 / 2 ^ 55 * 32) = Num (3602879701896397 / 2 ^ 50)"
    using rd_dyadic [of 3602879701896397 50] by simp
  obtain r where r: "rd (- 16 + 3602879701896397 / 2 ^ 50) = Num r" "r \<le> - 12"
    using rd_between [of "- 13" "- 16 + 3602879701896397 / 2 ^ 50" "- 12"] by auto
  obtain q where q: "rd (3602879701896397 / 2 ^ 55 + 3602879701896397 / 2 ^ 50) = Num q" "3 \<le> q"
    using rd_between [of 3 "3602879701896397 / 2 ^ 55 + 3602879701896397 / 2 ^ 50" 4] by auto
  have "depthFocus (setupCameraForScene_bbox (Num (- 16)) (Num 16)) = Num 2"
    using m r by (simp add: setupCameraForScene_bbox_def rd_tenth js_sub_def)
  moreover have "spec_bbox_focus (Num (- 16)) (Num 16) \<noteq> Num 2"
    using m q by (simp add: spec_bbox_focus_def rd_tenth js_sub_def Let_def)
  ultimately show ?thesis by simp
qed

section \<open>Depth estimator: \<^verbatim>\<open>computeDepthQuantiles\<close>\<close>

text \<open>
  An element of a \<^verbatim>\<open>Float32Array\<close> is a 32-bit pattern: one sign bit, eight exponent
  bits, 23 fraction bits. Reading it gives the binary32 value it encodes, which every
  binary64 number represents exactly.
\<close>

definition float32_of_fields :: "nat \<Rightarrow> nat \<Rightarrow> nat \<Rightarrow> jsnum" where
  "float32_of_fields s e m =
     (let sgn = (if s = 1 then - 1 else 1 :: real)
      in if e = 255 then (if m = 0 then (if s = 1 then NegInf else PosInf) else NaN)
         else if e = 0 then Num (sgn * of_nat m / 2 ^ 149)
         else if e < 150 then Num (sgn * of_nat (2 ^ 23 + m) / 2 ^ (150 - e))
         else Num (sgn * of_nat (2 ^ 23 + m) * 2 ^ (e - 150)))"

definition float32_value :: "32 word \<Rightarrow> jsnum" where
  "float32_value w =
     (let n = unat w
      in float32_of_fields (n div 2 ^ 31) ((n div 2 ^ 23) mod 256) (n mod 2 ^ 23))"

text \<open>
  The result fields \<^verbatim>\<open>min\<close>, \<^verbatim>\<open>focus\<close>, \<^verbatim>\<open>max\<close> are named \<open>dq_min\<close>, \<open>dq_focus\<close>,
  \<open>dq_max\<close>. The loop \<^verbatim>\<open>for (i = 2; i < positions.length; i += 3)\<close> visits the third
  component of every complete triple (\<open>depth_components\<close>), and keeps \<^verbatim>\<open>z\<close> when
  \<^verbatim>\<open>Number.isFinite(z) && z > 0\<close> (\<open>valid_depth\<close>).

  \<^verbatim>\<open>depths.sort((a, b) => a - b)\<close> is modelled by the insertion sort that asks the
  comparator of the source whether \<^verbatim>\<open>a - b > 0\<close>. \<^verbatim>\<open>depths[i]\<close> is
  \<^verbatim>\<open>undefined\<close> unless \<^verbatim>\<open>i\<close> is an integer index of the array (\<open>js_index\<close>), and
  \<^verbatim>\<open>??\<close> then takes the next alternative.
\<close>

record DepthQuantiles =
  dq_min :: jsnum
  dq_focus :: jsnum
  dq_max :: jsnum

fun depth_components :: "'a list \<Rightarrow> 'a list" where
  "depth_components (a # b # c # rest) = c # depth_components rest"
| "depth_components _ = []"

fun valid_depth :: "jsnum \<Rightarrow> bool" where
  "valid_depth (Num r) = (0 < r)"
| "valid_depth PosInf = (isFinite PosInf \<and> js_lt (Num 0) PosInf)"
| "valid_depth NegInf = False"
| "valid_depth NaN = False"

fun insert_sorted :: "jsnum \<Rightarrow> jsnum list \<Rightarrow> jsnum list" where
  "insert_sorted v [] = [v]"
| "insert_sorted v (u # us) =
     (if js_lt (Num 0) (js_sub v u) then u # insert_sorted v us else v # u # us)"

definition js_sort :: "jsnum list \<Rightarrow> jsnum list" where
  "js_sort xs = foldr insert_sorted xs []"

definition js_index :: "'a list \<Rightarrow> jsnum \<Rightarrow> 'a option" where
  "js_index xs i =
     (case i of
        Num r \<Rightarrow> if r = of_int \<lfloor>r\<rfloor> \<and> 0 \<le> r \<and> r < of_nat (length xs)
                 then Some (xs ! nat \<lfloor>r\<rfloor>) else None
      | _ \<Rightarrow> None)"

definition computeDepthQuantiles :: "32 word list \<Rightarrow> jsnum \<Rightarrow> DepthQuantiles" where
  "computeDepthQuantiles positions quantile =
     (let depths = js_sort (filter valid_depth (map float32_value (depth_components positions)));
          len = Num (of_nat (length depths))
      in if length depths = 0 then \<lparr>dq_min = Num 1, dq_focus = Num 2, dq_max = Num 10\<rparr>
         else
           let minIndex = js_floor (js_mul len quantile);
               maxIndex = js_floor (js_mul len (js_sub (Num 1) quantile));
               focusIndex = js_floor (js_mul len (rd (1 / 2)))
           in \<lparr>dq_min = (case js_index depths minIndex of Some v \<Rightarrow> v
                           | None \<Rightarrow> (case js_index depths (Num 0) of Some v \<Rightarrow> v | None \<Rightarrow> Num 1)),
               dq_focus = (case js_index depths focusIndex of Some v \<Rightarrow> v
                           | None \<Rightarrow> (case js_index depths (Num 0) of Some v \<Rightarrow> v | None \<Rightarrow> Num 2)),
               dq_max = (case js_index depths maxIndex of Some v \<Rightarrow> v
                           | None \<Rightarrow> (case js_index depths (js_sub len (Num 1)) of
                                         Some v \<Rightarrow> v | None \<Rightarrow> Num 10))\<rparr>)"

text \<open>
  The depths that are kept, as the specification words them: for every complete triple \<open>k\<close> the
  element of index \<open>3 * k + 2\<close>, when the binary32 value it encodes is finite and strictly
  positive, in the order of the array. The list is written from the indices, not from
  the loop of the source; \<open>kept_depths_eq\<close> relates the two.
\<close>

fun num_value :: "jsnum \<Rightarrow> real" where
  "num_value (Num r) = r"
| "num_value _ = 0"

definition kept_depths :: "32 word list \<Rightarrow> real list" where
  "kept_depths positions =
     concat (map (\<lambda>k. case float32_value (positions ! (3 * k + 2)) of
                        Num r \<Rightarrow> if 0 < r then [r] else []
                      | _ \<Rightarrow> [])
                 [0..<length positions div 3])"

subsection \<open>The loop visits the element \<open>3 * k + 2\<close> of every complete triple\<close>

lemma depth_components_length: "length (depth_components xs) = length xs div 3"
  by (induction xs rule: depth_components.induct) simp_all

lemma depth_components_nth:
  "k < length xs div 3 \<Longrightarrow> depth_components xs ! k = xs ! (3 * k + 2)"
proof (induction xs arbitrary: k rule: depth_components.induct)
  case (1 a b c rest)
  show ?case
  proof (cases k)
    case 0
    then show ?thesis by simp
  next
    case (Suc j)
    then have "j < length rest div 3" using 1(2) by simp
    then have "depth_components rest ! j = rest ! (3 * j + 2)" by (rule 1(1))
    then show ?thesis using Suc by (simp add: numeral_eq_Suc)
  qed
qed simp_all

lemma depth_components_eq:
  "depth_components xs = map (\<lambda>k. xs ! (3 * k + 2)) [0..<length xs div 3]"
  by (rule nth_equalityI) (simp_all add: depth_components_length depth_components_nth)

lemma keep_valid:
  "concat (map (\<lambda>v. case v of Num r \<Rightarrow> if 0 < r then [r] else [] | _ \<Rightarrow> []) vs) =
   map num_value (filter valid_depth vs)"
proof (induction vs)
  case Nil
  then show ?case by simp
next
  case (Cons v vs)
  then show ?case by (cases v) simp_all
qed

lemma kept_depths_eq:
  "kept_depths positions =
   map num_value (filter valid_depth (map float32_value (depth_components positions)))"
  unfolding kept_depths_def depth_components_eq keep_valid [symmetric]
  by (simp add: comp_def)


subsection \<open>Finite binary32 values lie on the grid of spacing \<open>2 ^ - 149\<close>\<close>

definition on_grid :: "real \<Rightarrow> bool" where
  "on_grid r \<longleftrightarrow> (\<exists>k::int. r = of_int k / 2 ^ 149)"

lemma on_grid_fields:
  assumes "float32_of_fields s e m = Num r"
  shows "on_grid r"
proof -
  define sg :: int where "sg = (if s = 1 then - 1 else 1)"
  define G :: real where "G = 2 ^ 149"
  have sgr: "(if s = 1 then - 1 else 1 :: real) = of_int sg" by (simp add: sg_def)
  have grid: "on_grid (of_int k / G)" for k unfolding on_grid_def G_def by blast
  consider "e = 0" | "0 < e" "e < 150" | "150 \<le> e" "e \<noteq> 255" | "e = 255" by linarith
  then show ?thesis
  proof cases
    case 1
    then have "Num r = Num (of_int sg * of_nat m / G)"
      using assms unfolding float32_of_fields_def Let_def sgr G_def by simp
    then have "r = of_int (sg * int m) / G" by simp
    then show ?thesis by (simp only: grid)
  next
    case 2
    then have "Num r = Num (of_int sg * of_nat (2 ^ 23 + m) / 2 ^ (150 - e))"
      using assms unfolding float32_of_fields_def Let_def sgr by simp
    then have r: "r = of_int sg * of_nat (2 ^ 23 + m) / 2 ^ (150 - e)" by simp
    define A :: real where "A = 2 ^ (150 - e)"
    define B :: real where "B = 2 ^ (e - 1)"
    define X :: real where "X = of_int sg * of_nat (2 ^ 23 + m)"
    have AB: "0 < A" "0 < B" by (simp_all add: A_def B_def)
    have "(149::nat) = (150 - e) + (e - 1)" using 2 by simp
    then have "G = A * B" unfolding G_def A_def B_def by (simp only: power_add)
    then have 1: "X / A = X * B / G" using AB by simp
    have 2: "X * B = of_int (sg * int (2 ^ 23 + m) * 2 ^ (e - 1))"
      unfolding X_def B_def by simp
    have "r = X / A" by (simp only: r X_def A_def)
    also have "\<dots> = of_int (sg * int (2 ^ 23 + m) * 2 ^ (e - 1)) / G" by (simp only: 1 2)
    finally have "r = of_int (sg * int (2 ^ 23 + m) * 2 ^ (e - 1)) / G" .
    then show ?thesis by (simp only: grid)
  next
    case 3
    then have "Num r = Num (of_int sg * of_nat (2 ^ 23 + m) * 2 ^ (e - 150))"
      using assms unfolding float32_of_fields_def Let_def sgr by simp
    then have r: "r = of_int sg * of_nat (2 ^ 23 + m) * 2 ^ (e - 150)" by simp
    define X :: int where "X = sg * int (2 ^ 23 + m) * 2 ^ (e - 150)"
    have G: "0 < G" by (simp add: G_def)
    have "r = of_int X" unfolding r X_def by simp
    also have "\<dots> = of_int X * G / G" using G by simp
    finally have 1: "r = of_int X * G / G" .
    have "of_int X * G = of_int (X * 2 ^ 149)" unfolding G_def by (simp only: of_int_mult of_int_power of_int_numeral)
    then have "r = of_int (X * 2 ^ 149) / G" using 1 by (simp only:)
    then show ?thesis by (simp only: grid)
  next
    case 4
    then show ?thesis
      using assms by (simp add: float32_of_fields_def split: if_splits)
  qed
qed

lemma on_grid_float32: "float32_value w = Num r \<Longrightarrow> on_grid r"
  unfolding float32_value_def Let_def by (rule on_grid_fields)

lemma rd_grid_unit: "rd (1 / 2 ^ 149) = Num (1 / 2 ^ 149)"
  using rd_dyadic [of 1 149] by simp

lemma js_compare_grid:
  assumes "on_grid v" "on_grid u"
  shows "js_lt (Num 0) (js_sub (Num v) (Num u)) \<longleftrightarrow> u < v"
proof (cases "u < v")
  case True
  define G :: real where "G = 2 ^ 149"
  have G: "0 < G" by (simp add: G_def)
  obtain k j :: int where kj: "v = of_int k / G" "u = of_int j / G"
    using assms unfolding on_grid_def G_def by blast
  with True G have "(of_int j :: real) < of_int k" by (simp add: divide_less_cancel)
  then have "j < k" by simp
  then have "1 \<le> k - j" by simp
  then have "(1::real) \<le> of_int (k - j)" by (simp only: of_int_1_le_iff)
  then have "1 / G \<le> of_int (k - j) / G" using G by (simp only: divide_le_cancel) simp
  also have "of_int (k - j) / G = v - u" unfolding kj by (simp add: diff_divide_distrib)
  finally have "1 / 2 ^ 149 \<le> v - u" unfolding G_def .
  then have "js_le (rd (1 / 2 ^ 149)) (rd (v - u))" by (rule rd_mono)
  then have "js_le (Num (1 / 2 ^ 149)) (rd (v - u))" by (simp only: rd_grid_unit)
  then have "js_lt (Num 0) (rd (v - u))" by (cases "rd (v - u)") simp_all
  then show ?thesis using True by (simp add: js_sub_def)
next
  case False
  then have "v - u \<le> 0" by simp
  then have "js_le (rd (v - u)) (rd 0)" by (rule rd_mono)
  then have "\<not> js_lt (Num 0) (rd (v - u))" by (cases "rd (v - u)") simp_all
  then show ?thesis using False by (simp add: js_sub_def)
qed

lemma insert_sorted_grid:
  assumes "on_grid v" "\<forall>u \<in> set us. on_grid u"
  shows "insert_sorted (Num v) (map Num us) = map Num (insort v us)"
  using assms(2)
proof (induction us)
  case Nil
  then show ?case by simp
next
  case (Cons u us)
  then have "on_grid u" by simp
  with assms(1) have "js_lt (Num 0) (js_sub (Num v) (Num u)) \<longleftrightarrow> u < v" by (rule js_compare_grid)
  then show ?case using Cons by auto
qed

lemma js_sort_grid:
  assumes "\<forall>u \<in> set us. on_grid u"
  shows "js_sort (map Num us) = map Num (sort us)"
  using assms
proof (induction us)
  case Nil
  then show ?case by (simp add: js_sort_def)
next
  case (Cons u us)
  then have "js_sort (map Num us) = map Num (sort us)" by simp
  moreover have "\<forall>x \<in> set (sort us). on_grid x" using Cons.prems by simp
  ultimately show ?case using Cons.prems
    by (simp add: js_sort_def insert_sorted_grid)
qed

lemma valid_depth_Num: "valid_depth v \<Longrightarrow> Num (num_value v) = v"
  by (cases v) simp_all

lemma valid_depths_eq:
  "filter valid_depth vs = map Num (map num_value (filter valid_depth vs))"
proof -
  have "map (\<lambda>v. Num (num_value v)) (filter valid_depth vs) = filter valid_depth vs"
    by (rule map_idI) (simp add: valid_depth_Num)
  then show ?thesis by (simp add: comp_def)
qed

lemma kept_depths_grid: "\<forall>u \<in> set (kept_depths positions). on_grid u"
proof
  fix u assume "u \<in> set (kept_depths positions)"
  then obtain v where v: "v \<in> set (map float32_value (depth_components positions))"
    "valid_depth v" "u = num_value v"
    unfolding kept_depths_eq by auto
  from v(2,3) have "v = Num u" using valid_depth_Num [of v] by simp
  with v(1) obtain w where "float32_value w = Num u" by auto
  then show "on_grid u" by (rule on_grid_float32)
qed

lemma kept_depths_pos: "\<forall>u \<in> set (kept_depths positions). 0 < u"
proof
  fix u assume "u \<in> set (kept_depths positions)"
  then obtain v where v: "valid_depth v" "u = num_value v"
    unfolding kept_depths_eq by auto
  then show "0 < u" by (cases v) simp_all
qed

lemma sorted_depths:
  "js_sort (filter valid_depth (map float32_value (depth_components positions))) =
   map Num (sort (kept_depths positions))"
proof -
  have "filter valid_depth (map float32_value (depth_components positions)) =
      map Num (kept_depths positions)"
    unfolding kept_depths_eq by (rule valid_depths_eq)
  then show ?thesis using js_sort_grid [OF kept_depths_grid] by simp
qed

subsection \<open>The three indices\<close>

lemma js_floor_rd:
  assumes "of_int k \<le> x" "x \<le> of_int k + 15 / 16" "0 \<le> k" "k < 2 ^ 48"
  shows "js_floor (rd x) = Num (of_int k)"
proof -
  have "js_le (rd (of_int k)) (rd x)" using assms(1) by (rule rd_mono)
  moreover have "rd (of_int k) = Num (of_int k)" using assms(3,4) by (intro rd_of_int) simp
  ultimately have lo: "js_le (Num (of_int k)) (rd x)" by simp
  have e: "(of_int (16 * k + 15) / 2 ^ 4 :: real) = of_int k + 15 / 16" by simp
  have "rd (of_int (16 * k + 15) / 2 ^ 4) = Num (of_int (16 * k + 15) / 2 ^ 4)"
    using assms(3,4) by (intro rd_dyadic) simp_all
  then have "rd (of_int k + 15 / 16) = Num (of_int k + 15 / 16)" unfolding e .
  moreover have "js_le (rd x) (rd (of_int k + 15 / 16))" using assms(2) by (rule rd_mono)
  ultimately have hi: "js_le (rd x) (Num (of_int k + 15 / 16))" by simp
  from lo hi obtain r where r: "rd x = Num r" "of_int k \<le> r" "r \<le> of_int k + 15 / 16"
    by (cases "rd x") simp_all
  then have "\<lfloor>r\<rfloor> = k" by (intro floor_unique) simp_all
  then show ?thesis using r(1) by simp
qed

lemma quantile_slack:
  fixes Q R N :: real
  shows "R \<le> 9 \<Longrightarrow> N < 4294967296 \<Longrightarrow>
    (10 * Q + R) / 10 + N / 36028797018963968 \<le> Q + 15 / 16"
  by (simp add: field_simps)

text \<open>A count below \<open>2 ^ 32\<close> times a binary64 factor that exceeds the fraction \<open>j / 10\<close> by
  at most \<open>2 ^ - 55\<close>: the rounded product has the floor of the exact one.\<close>

lemma index_fraction:
  assumes n: "n < 2 ^ 32" and j: "j \<le> 9"
    and c: "of_nat j / 10 \<le> c" "c \<le> of_nat j / 10 + 1 / 2 ^ 55"
  shows "js_floor (rd (real n * c)) = Num (of_nat (j * n div 10))"
proof -
  define q where "q = j * n div 10"
  define r where "r = j * n mod 10"
  have "j * n = 10 * q + r" unfolding q_def r_def by simp
  then have "real (j * n) = real (10 * q + r)" by (simp only:)
  then have jn: "real j * real n = 10 * real q + real r" by simp
  have "r < 10" unfolding r_def by simp
  then have "r \<le> 9" by simp
  then have "real r \<le> real 9" by (simp only: of_nat_le_iff)
  then have r: "real r \<le> 9" by simp
  have "real n < real (2 ^ 32)" using n by (simp only: of_nat_less_iff)
  then have n': "real n < 4294967296" by simp
  have n0: "0 \<le> real n" by simp
  have "j * n \<le> 9 * n" using j by simp
  then have "q \<le> 9 * n div 10" unfolding q_def by (rule div_le_mono)
  also have "\<dots> \<le> n" by simp
  finally have "q < 2 ^ 32" using n by simp
  then have qk: "int q < 2 ^ 48" by simp
  have "real q \<le> (real j * real n) / 10" unfolding jn by simp
  also have "\<dots> = real n * (real j / 10)" by simp
  also have "\<dots> \<le> real n * c" using c(1) n0 by (rule mult_left_mono)
  finally have lo: "real q \<le> real n * c" .
  have "real n * c \<le> real n * (real j / 10 + 1 / 2 ^ 55)" using c(2) n0 by (rule mult_left_mono)
  also have "\<dots> = (real j * real n) / 10 + real n / 36028797018963968"
    by (simp add: algebra_simps)
  also have "\<dots> \<le> real q + 15 / 16" unfolding jn using r n' by (rule quantile_slack)
  finally have hi: "real n * c \<le> real q + 15 / 16" .
  have "js_floor (rd (real n * c)) = Num (of_int (int q))"
    using lo hi qk by (intro js_floor_rd) simp_all
  then show ?thesis by (simp add: q_def)
qed

lemma index_tenth:
  assumes "n < 2 ^ 32"
  shows "js_floor (js_mul (Num (of_nat n)) (rd (1 / 10))) = Num (of_nat (n div 10))"
  using index_fraction [OF assms, of 1 "3602879701896397 / 2 ^ 55"]
  by (simp add: rd_tenth)

lemma rd_nine_tenths: "js_sub (Num 1) (rd (1 / 10)) = Num (8106479329266893 / 2 ^ 53)"
proof -
  have "rd (1 - 3602879701896397 / 2 ^ 55) = Num (2 powr of_int (- 1 - 52) *
      of_int (round_half_even ((1 - 3602879701896397 / 2 ^ 55) / 2 powr of_int (- 1 - 52))))"
    by (rule rd_normal) (simp_all add: powr_minus)
  also have "(1 - 3602879701896397 / 2 ^ 55) / 2 powr of_int (- 1 - 52) =
      (32425917317067571 / 4 :: real)"
    by (simp add: powr_minus)
  also have "round_half_even (32425917317067571 / 4) = 8106479329266893"
    by (simp add: round_half_even_def)
  finally have "rd (1 - 3602879701896397 / 2 ^ 55) = Num (8106479329266893 / 2 ^ 53)"
    by (simp add: powr_minus)
  then show ?thesis by (simp add: js_sub_def rd_tenth)
qed

lemma index_nine_tenths:
  assumes "n < 2 ^ 32"
  shows "js_floor (js_mul (Num (of_nat n)) (js_sub (Num 1) (rd (1 / 10)))) =
    Num (of_nat (9 * n div 10))"
  using index_fraction [OF assms, of 9 "8106479329266893 / 2 ^ 53"]
  by (simp add: rd_nine_tenths)

lemma index_half:
  assumes "n < 2 ^ 32"
  shows "js_floor (js_mul (Num (of_nat n)) (rd (1 / 2))) = Num (of_nat (n div 2))"
proof -
  have "int n < 2 ^ 53" using assms by simp
  then have "rd (of_int (int n) / 2 ^ 1) = Num (of_int (int n) / 2 ^ 1)"
    by (intro rd_dyadic) simp_all
  then have "js_mul (Num (of_nat n)) (rd (1 / 2)) = Num (real n / 2)"
    by (simp add: rd_half)
  moreover have "\<lfloor>real n / 2\<rfloor> = int (n div 2)"
    using floor_divide_of_nat_eq [of n 2, where ?'a = real] by simp
  ultimately show ?thesis by simp
qed

lemma js_index_nat: "k < length xs \<Longrightarrow> js_index xs (Num (of_nat k)) = Some (xs ! k)"
  by (simp add: js_index_def)

subsection \<open>The quantiles\<close>

text \<open>
  C8. With the default quantile \<open>0.1\<close>, \<^verbatim>\<open>computeDepthQuantiles\<close> keeps exactly the
  components of index \<open>3 * k + 2\<close> (the third of every complete triple) whose value is
  finite and strictly positive (\<open>kept_depths\<close>), sorts them ascending, and with \<open>n\<close> the
  number of kept depths returns the values at the indices \<open>\<lfloor>n * 0.1\<rfloor> = n div 10\<close> (min),
  \<open>\<lfloor>n * 0.5\<rfloor> = n div 2\<close> (focus) and \<open>\<lfloor>n * 0.9\<rfloor> = 9 * n div 10\<close> (max); for \<open>n = 0\<close> it returns
  the constants \<open>1\<close>, \<open>2\<close>, \<open>10\<close>. Every field of the result is a finite number. The
  array \<^verbatim>\<open>depths\<close> has fewer than \<open>2 ^ 32\<close> elements, as every JavaScript array has.
\<close>

theorem computeDepthQuantiles_default:
  assumes "length (kept_depths positions) < 2 ^ 32"
  shows "computeDepthQuantiles positions (rd (1 / 10)) =
     (let ds = sort (kept_depths positions); n = length ds
      in if n = 0 then \<lparr>dq_min = Num 1, dq_focus = Num 2, dq_max = Num 10\<rparr>
         else \<lparr>dq_min = Num (ds ! (n div 10)),
               dq_focus = Num (ds ! (n div 2)),
               dq_max = Num (ds ! (9 * n div 10))\<rparr>)"
proof -
  define ds where "ds = sort (kept_depths positions)"
  define n where "n = length ds"
  have n: "n < 2 ^ 32" using assms by (simp add: n_def ds_def)
  have depths: "js_sort (filter valid_depth (map float32_value (depth_components positions))) =
      map Num ds"
    unfolding ds_def by (rule sorted_depths)
  have len: "length (map Num ds) = n" by (simp add: n_def)
  show ?thesis
  proof (cases "n = 0")
    case True
    then show ?thesis
      unfolding computeDepthQuantiles_def depths Let_def len
      by (simp add: n_def ds_def)
  next
    case False
    have i1: "n div 10 < length (map Num ds)" using False by (simp add: n_def)
    have i2: "n div 2 < length (map Num ds)" using False by (simp add: n_def)
    have "9 * n div 10 < n" using False by arith
    then have i3: "9 * n div 10 < length (map Num ds)" by (simp add: n_def)
    show ?thesis
      unfolding computeDepthQuantiles_def depths Let_def len
        index_tenth [OF n] index_half [OF n] index_nine_tenths [OF n]
        js_index_nat [OF i1] js_index_nat [OF i2] js_index_nat [OF i3]
      using False i1 i2 i3 by (simp add: n_def ds_def)
  qed
qed

theorem computeDepthQuantiles_default_witness:
  "length (kept_depths
     [0x40000000, 0x40800000, 0x40400000, 0x40A00000, 0x40C00000, 0xBF800000,
      0x40E00000, 0x41000000, 0x7FC00000, 0x41100000, 0x41200000, 0x3F800000,
      0x41300000, 0x41400000]) < 2 ^ 32
   \<and> kept_depths
     [0x40000000, 0x40800000, 0x40400000, 0x40A00000, 0x40C00000, 0xBF800000,
      0x40E00000, 0x41000000, 0x7FC00000, 0x41100000, 0x41200000, 0x3F800000,
      0x41300000, 0x41400000] = [3, 1]
   \<and> computeDepthQuantiles
     [0x40000000, 0x40800000, 0x40400000, 0x40A00000, 0x40C00000, 0xBF800000,
      0x40E00000, 0x41000000, 0x7FC00000, 0x41100000, 0x41200000, 0x3F800000,
      0x41300000, 0x41400000] (rd (1 / 10))
     = \<lparr>dq_min = Num 1, dq_focus = Num 3, dq_max = Num 3\<rparr>"
proof -
  have k: "kept_depths
     [0x40000000, 0x40800000, 0x40400000, 0x40A00000, 0x40C00000, 0xBF800000,
      0x40E00000, 0x41000000, 0x7FC00000, 0x41100000, 0x41200000, 0x3F800000,
      0x41300000, 0x41400000] = [3, 1]"
    by (simp add: kept_depths_def upt_conv_Cons float32_value_def float32_of_fields_def)
  have l: "length (kept_depths
     [0x40000000, 0x40800000, 0x40400000, 0x40A00000, 0x40C00000, 0xBF800000,
      0x40E00000, 0x41000000, 0x7FC00000, 0x41100000, 0x41200000, 0x3F800000,
      0x41300000, 0x41400000]) < 2 ^ 32"
    unfolding k by simp
  show ?thesis
    using computeDepthQuantiles_default [OF l] l k unfolding k by simp
qed

section \<open>Metadata codec: \<^verbatim>\<open>parsePlyMetadata\<close>\<close>

subsection \<open>Strings and the text decoder\<close>

text \<open>
  A JavaScript string is a sequence of UTF-16 code units, here natural numbers; \<open>lit\<close>
  turns a literal of the source into one.

  \<^verbatim>\<open>new TextDecoder("utf-8").decode(bytes)\<close> never fails: it follows the decoder of the
  Encoding standard, which replaces every malformed sequence by U+FFFD (and reads the
  offending byte again as the start of a new sequence), drops one leading byte order mark,
  and the string holds a code point above U+FFFF as two surrogates.
\<close>

type_synonym jsstring = "nat list"

definition lit :: "string \<Rightarrow> jsstring" where
  "lit s = map of_char s"

datatype utf8_state = Utf8State (code_point: nat) (bytes_seen: nat) (bytes_needed: nat)
  (lower_boundary: nat) (upper_boundary: nat)

definition utf8_initial :: utf8_state where
  "utf8_initial = Utf8State 0 0 0 0x80 0xBF"

definition utf8_lead :: "nat \<Rightarrow> nat list \<times> utf8_state" where
  "utf8_lead b =
     (if b \<le> 0x7F then ([b], utf8_initial)
      else if 0xC2 \<le> b \<and> b \<le> 0xDF then ([], Utf8State (b mod 32) 0 1 0x80 0xBF)
      else if 0xE0 \<le> b \<and> b \<le> 0xEF then
        ([], Utf8State (b mod 16) 0 2 (if b = 0xE0 then 0xA0 else 0x80)
               (if b = 0xED then 0x9F else 0xBF))
      else if 0xF0 \<le> b \<and> b \<le> 0xF4 then
        ([], Utf8State (b mod 8) 0 3 (if b = 0xF0 then 0x90 else 0x80)
               (if b = 0xF4 then 0x8F else 0xBF))
      else ([0xFFFD], utf8_initial))"

definition utf8_step :: "utf8_state \<Rightarrow> nat \<Rightarrow> nat list \<times> utf8_state" where
  "utf8_step st b =
     (if bytes_needed st = 0 then utf8_lead b
      else if \<not> (lower_boundary st \<le> b \<and> b \<le> upper_boundary st) then
        (case utf8_lead b of (out, st') \<Rightarrow> (0xFFFD # out, st'))
      else
        let cp = code_point st * 64 + b mod 64 in
        if bytes_seen st + 1 \<noteq> bytes_needed st
        then ([], Utf8State cp (bytes_seen st + 1) (bytes_needed st) 0x80 0xBF)
        else ([cp], utf8_initial))"

fun utf8_run :: "utf8_state \<Rightarrow> nat list \<Rightarrow> nat list" where
  "utf8_run st [] = (if bytes_needed st \<noteq> 0 then [0xFFFD] else [])"
| "utf8_run st (b # bs) = (case utf8_step st b of (out, st') \<Rightarrow> out @ utf8_run st' bs)"

fun utf16_units :: "nat \<Rightarrow> nat list" where
  "utf16_units cp =
     (if cp < 0x10000 then [cp]
      else [0xD800 + (cp - 0x10000) div 0x400, 0xDC00 + (cp - 0x10000) mod 0x400])"

fun strip_bom :: "nat list \<Rightarrow> nat list" where
  "strip_bom (c # cs) = (if c = 0xFEFF then cs else c # cs)"
| "strip_bom [] = []"

definition TextDecoder_decode :: "8 word list \<Rightarrow> jsstring" where
  "TextDecoder_decode bytes =
     concat (map utf16_units (strip_bom (utf8_run utf8_initial (map unat bytes))))"

text \<open>
  White space as \<^verbatim>\<open>trim\<close>, \<^verbatim>\<open>\s\<close> and \<^verbatim>\<open>parseInt\<close> see it: the white space and line
  terminator code points of the language. \<open>split_newline\<close> is \<^verbatim>\<open>text.split("\n")\<close>,
  \<open>split_whitespace\<close> is \<^verbatim>\<open>s.split(/\s+/)\<close>: both keep the empty pieces at the ends.
  \<open>parseInt10\<close> is \<^verbatim>\<open>Number.parseInt(s, 10)\<close>: optional sign, the longest run of
  decimal digits, \<^verbatim>\<open>NaN\<close> when there is none; the integer is rounded to binary64.
\<close>

definition is_ws :: "nat \<Rightarrow> bool" where
  "is_ws c \<longleftrightarrow>
     c \<in> {0x09, 0x0A, 0x0B, 0x0C, 0x0D, 0x20, 0xA0, 0x1680, 0x2028, 0x2029, 0x202F, 0x205F,
          0x3000, 0xFEFF}
     \<or> (0x2000 \<le> c \<and> c \<le> 0x200A)"

definition trim :: "jsstring \<Rightarrow> jsstring" where
  "trim s = rev (dropWhile is_ws (rev (dropWhile is_ws s)))"

definition startsWith :: "jsstring \<Rightarrow> jsstring \<Rightarrow> bool" where
  "startsWith s p \<longleftrightarrow> take (length p) s = p"

fun split_on :: "nat \<Rightarrow> jsstring \<Rightarrow> jsstring \<Rightarrow> jsstring list" where
  "split_on sep cur [] = [rev cur]"
| "split_on sep cur (c # cs) =
     (if c = sep then rev cur # split_on sep [] cs else split_on sep (c # cur) cs)"

definition split_newline :: "jsstring \<Rightarrow> jsstring list" where
  "split_newline s = split_on 0x0A [] s"

fun split_ws_from :: "bool \<Rightarrow> jsstring \<Rightarrow> jsstring \<Rightarrow> jsstring list" where
  "split_ws_from in_ws cur [] = [rev cur]"
| "split_ws_from in_ws cur (c # cs) =
     (if is_ws c then
        (if in_ws then split_ws_from True cur cs else rev cur # split_ws_from True [] cs)
      else split_ws_from False (c # cur) cs)"

definition split_whitespace :: "jsstring \<Rightarrow> jsstring list" where
  "split_whitespace s = split_ws_from False [] s"

definition is_digit :: "nat \<Rightarrow> bool" where
  "is_digit c \<longleftrightarrow> 0x30 \<le> c \<and> c \<le> 0x39"

definition digits_value :: "jsstring \<Rightarrow> nat" where
  "digits_value ds = foldl (\<lambda>a d. 10 * a + (d - 0x30)) 0 ds"

definition parseInt10 :: "jsstring \<Rightarrow> jsnum" where
  "parseInt10 s =
     (let s1 = dropWhile is_ws s;
          negative = (s1 \<noteq> [] \<and> hd s1 = 0x2D);
          s2 = (if s1 \<noteq> [] \<and> (hd s1 = 0x2D \<or> hd s1 = 0x2B) then tl s1 else s1);
          ds = takeWhile is_digit s2
      in if ds = [] then NaN
         else if negative then rd (- of_nat (digits_value ds))
         else rd (of_nat (digits_value ds)))"

subsection \<open>The metadata record and the matrices it shares\<close>

text \<open>
  \<^verbatim>\<open>Matrix4\<close> and \<^verbatim>\<open>Matrix3\<close> are three.js objects: an array \<^verbatim>\<open>elements\<close> in
  column-major order, the identity when constructed. Their method \<^verbatim>\<open>set\<close> takes its
  arguments in row-major order (\<^verbatim>\<open>n11, n12, n13, n14, n21, ...\<close>) and stores them
  column-major: \<^verbatim>\<open>te[0] = n11; te[4] = n12; te[8] = n13; te[12] = n14; te[1] = n21\<close>
  and so on. The entry at row \<open>r\<close> and column \<open>c\<close> of a \<^verbatim>\<open>Matrix4\<close> is
  \<^verbatim>\<open>elements[4 * c + r]\<close>.

  \<^verbatim>\<open>DEFAULT_METADATA\<close> is built once, with one \<^verbatim>\<open>Matrix4\<close> and one \<^verbatim>\<open>Matrix3\<close>.
  \<^verbatim>\<open>{ ...DEFAULT_METADATA }\<close> copies the fields, not the objects they refer to, so the
  fields \<^verbatim>\<open>extrinsics\<close> and \<^verbatim>\<open>intrinsics\<close> of every record are references
  (\<open>matrix_ref\<close>) into a heap that holds the contents of the two objects.
\<close>

datatype ColorSpace = sRGB | linearRGB

datatype PlyFormat = binary_little_endian | binary_big_endian | ascii

datatype matrix_ref = DefaultExtrinsics | DefaultIntrinsics

type_synonym heap = "matrix_ref \<Rightarrow> jsnum list"

record PlyMetadata =
  extrinsics :: matrix_ref
  intrinsics :: matrix_ref
  imageSize :: "jsnum \<times> jsnum"
  focalLength :: jsnum
  colorSpace :: ColorSpace
  hasMetadata :: bool

definition Matrix4_identity :: "jsnum list" where
  "Matrix4_identity =
     [Num 1, Num 0, Num 0, Num 0, Num 0, Num 1, Num 0, Num 0,
      Num 0, Num 0, Num 1, Num 0, Num 0, Num 0, Num 0, Num 1]"

definition Matrix3_identity :: "jsnum list" where
  "Matrix3_identity = [Num 1, Num 0, Num 0, Num 0, Num 1, Num 0, Num 0, Num 0, Num 1]"

definition initial_heap :: heap where
  "initial_heap r = (case r of DefaultExtrinsics \<Rightarrow> Matrix4_identity
                            | DefaultIntrinsics \<Rightarrow> Matrix3_identity)"

definition DEFAULT_METADATA :: PlyMetadata where
  "DEFAULT_METADATA =
     \<lparr>extrinsics = DefaultExtrinsics, intrinsics = DefaultIntrinsics,
      imageSize = (Num 640, Num 480), focalLength = Num 0, colorSpace = sRGB,
      hasMetadata = False\<rparr>"

definition Matrix4_set :: "jsnum list \<Rightarrow> jsnum list" where
  "Matrix4_set args =
     (case args of
        [n11, n12, n13, n14, n21, n22, n23, n24, n31, n32, n33, n34, n41, n42, n43, n44] \<Rightarrow>
          [n11, n21, n31, n41, n12, n22, n32, n42, n13, n23, n33, n43, n14, n24, n34, n44]
      | _ \<Rightarrow> args)"

definition Matrix3_set :: "jsnum list \<Rightarrow> jsnum list" where
  "Matrix3_set args =
     (case args of
        [n11, n12, n13, n21, n22, n23, n31, n32, n33] \<Rightarrow>
          [n11, n21, n31, n12, n22, n32, n13, n23, n33]
      | _ \<Rightarrow> args)"

definition Matrix4_entry :: "jsnum list \<Rightarrow> nat \<Rightarrow> nat \<Rightarrow> jsnum" where
  "Matrix4_entry elems row col = elems ! (4 * col + row)"

subsection \<open>The header: \<^verbatim>\<open>parsePlyHeader\<close>\<close>

text \<open>
  The fields \<^verbatim>\<open>name\<close> and \<^verbatim>\<open>type\<close> of a property are \<open>prop_name\<close> and
  \<open>prop_type\<close>, the field \<^verbatim>\<open>name\<close> of an element is \<open>el_name\<close>.

  The loop of \<^verbatim>\<open>parsePlyHeader\<close> mutates element objects that the array
  \<^verbatim>\<open>elements\<close> may already hold: an \<^verbatim>\<open>element\<close> line with fewer than three parts
  pushes the current element and leaves it current, so later \<^verbatim>\<open>property\<close> lines extend
  an object that is in the array, and the next push adds it once more. The loop state
  therefore keeps the objects in a table (\<open>objects\<close>), the array as indices into it
  (\<open>pushed\<close>), and the current element as an index. \<open>save_current\<close> is the block
  "save previous element", \<open>header_line\<close> the body of the loop after the test for
  \<^verbatim>\<open>end_header\<close>, \<open>parse_lines\<close> the loop with its \<^verbatim>\<open>break\<close>.
\<close>

record PropertyInfo =
  prop_name :: jsstring
  prop_type :: jsstring
  byteSize :: nat

record ElementInfo =
  el_name :: jsstring
  count :: jsnum
  properties :: "PropertyInfo list"
  bytesPerElement :: nat

definition getPropertyByteSize :: "jsstring \<Rightarrow> nat" where
  "getPropertyByteSize t =
     (if t \<in> {lit ''char'', lit ''uchar'', lit ''int8'', lit ''uint8''} then 1
      else if t \<in> {lit ''short'', lit ''ushort'', lit ''int16'', lit ''uint16''} then 2
      else if t \<in> {lit ''int'', lit ''uint'', lit ''int32'', lit ''uint32'', lit ''float'',
                    lit ''float32''} then 4
      else if t \<in> {lit ''double'', lit ''float64''} then 8
      else 4)"

record HeaderState =
  objects :: "ElementInfo list"
  pushed :: "nat list"
  currentElement :: "nat option"
  st_headerEndIndex :: nat
  byteOffset :: nat
  st_format :: PlyFormat

record PlyHeader =
  headerEndIndex :: nat
  elements :: "ElementInfo list"
  format :: PlyFormat

definition save_current :: "HeaderState \<Rightarrow> HeaderState" where
  "save_current st =
     (case currentElement st of
        None \<Rightarrow> st
      | Some i \<Rightarrow>
          st\<lparr>objects := (objects st)
                 [i := (objects st ! i)
                    \<lparr>bytesPerElement := sum_list (map byteSize (properties (objects st ! i)))\<rparr>],
             pushed := pushed st @ [i]\<rparr>)"

definition header_line :: "jsstring \<Rightarrow> HeaderState \<Rightarrow> HeaderState" where
  "header_line trimmed st =
     (if startsWith trimmed (lit ''format '') then
        (let parts = split_whitespace trimmed in
         if 1 < length parts \<and> parts ! 1 = lit ''binary_little_endian''
           then st\<lparr>st_format := binary_little_endian\<rparr>
         else if 1 < length parts \<and> parts ! 1 = lit ''binary_big_endian''
           then st\<lparr>st_format := binary_big_endian\<rparr>
         else st)
      else if startsWith trimmed (lit ''element '') then
        (let st1 = save_current st;
             parts = split_whitespace trimmed
         in if 3 \<le> length parts \<and> parts ! 1 \<noteq> [] then
              st1\<lparr>objects := objects st1 @
                       [\<lparr>el_name = parts ! 1, count = parseInt10 (parts ! 2),
                         properties = [], bytesPerElement = 0\<rparr>],
                  currentElement := Some (length (objects st1))\<rparr>
            else st1)
      else if startsWith trimmed (lit ''property '') \<and> currentElement st \<noteq> None then
        (let parts = split_whitespace trimmed in
         if 3 \<le> length parts \<and> parts ! 1 \<noteq> [] \<and> parts ! 2 \<noteq> [] then
           (case currentElement st of
              None \<Rightarrow> st
            | Some i \<Rightarrow>
                st\<lparr>objects := (objects st)
                       [i := (objects st ! i)
                          \<lparr>properties := properties (objects st ! i) @
                             [\<lparr>prop_name = last parts, prop_type = parts ! 1,
                               byteSize = getPropertyByteSize (parts ! 1)\<rparr>]\<rparr>]\<rparr>)
         else st)
      else st)"

fun parse_lines :: "jsstring list \<Rightarrow> HeaderState \<Rightarrow> HeaderState" where
  "parse_lines [] st = st"
| "parse_lines (line # rest) st =
     (let st1 = st\<lparr>byteOffset := byteOffset st + (length line + 1)\<rparr>;
          trimmed = trim line
      in if trimmed = lit ''end_header'' then st1\<lparr>st_headerEndIndex := byteOffset st1\<rparr>
         else parse_lines rest (header_line trimmed st1))"

definition parsePlyHeader :: "jsstring \<Rightarrow> PlyHeader" where
  "parsePlyHeader text =
     (let st = save_current
           (parse_lines (split_newline text)
              \<lparr>objects = [], pushed = [], currentElement = None, st_headerEndIndex = 0,
               byteOffset = 0, st_format = ascii\<rparr>)
      in \<lparr>headerEndIndex = st_headerEndIndex st,
          elements = map (\<lambda>i. objects st ! i) (pushed st),
          format = st_format st\<rparr>)"

subsection \<open>Reading the body through a \<^verbatim>\<open>DataView\<close>\<close>

text \<open>
  The buffer is a list of bytes. A \<^verbatim>\<open>DataView\<close> read converts the requested offset
  with \<^verbatim>\<open>ToIndex\<close> (\<^verbatim>\<open>NaN\<close> is 0, a fraction is truncated, a negative or infinite
  offset is a \<^verbatim>\<open>RangeError\<close>) and raises a \<^verbatim>\<open>RangeError\<close> when the value would end
  beyond the buffer. All reads of the source are little-endian. \<open>read_each\<close> is the loop
  of \<^verbatim>\<open>readFloats\<close> and \<^verbatim>\<open>readUints\<close>: the first read that raises ends it.
\<close>

datatype js_error = RangeError

fun ToIndex :: "jsnum \<Rightarrow> js_error + nat" where
  "ToIndex NaN = Inr 0"
| "ToIndex (Num x) =
     (let t = (if x < 0 then \<lceil>x\<rceil> else \<lfloor>x\<rfloor>)
      in if t < 0 \<or> 2 ^ 53 - 1 < t then Inl RangeError else Inr (nat t))"
| "ToIndex PosInf = Inl RangeError"
| "ToIndex NegInf = Inl RangeError"

definition view_bytes :: "8 word list \<Rightarrow> jsnum \<Rightarrow> nat \<Rightarrow> js_error + nat list" where
  "view_bytes buffer requestIndex n =
     (case ToIndex requestIndex of
        Inl e \<Rightarrow> Inl e
      | Inr getIndex \<Rightarrow>
          if length buffer < getIndex + n then Inl RangeError
          else Inr (map unat (take n (drop getIndex buffer))))"

definition little_endian :: "nat list \<Rightarrow> nat" where
  "little_endian bs = foldr (\<lambda>b acc. b + 256 * acc) bs 0"

definition getUint8 :: "8 word list \<Rightarrow> jsnum \<Rightarrow> js_error + jsnum" where
  "getUint8 buffer requestIndex = map_sum id (\<lambda>bs. Num (of_nat (little_endian bs))) (view_bytes buffer requestIndex 1)"

definition getUint32 :: "8 word list \<Rightarrow> jsnum \<Rightarrow> js_error + jsnum" where
  "getUint32 buffer requestIndex = map_sum id (\<lambda>bs. Num (of_nat (little_endian bs))) (view_bytes buffer requestIndex 4)"

definition getFloat32 :: "8 word list \<Rightarrow> jsnum \<Rightarrow> js_error + jsnum" where
  "getFloat32 buffer requestIndex = map_sum id (\<lambda>bs. float32_value (of_nat (little_endian bs))) (view_bytes buffer requestIndex 4)"

fun read_each :: "(jsnum \<Rightarrow> js_error + jsnum) \<Rightarrow> jsnum \<Rightarrow> nat list \<Rightarrow> js_error + jsnum list" where
  "read_each get offset [] = Inr []"
| "read_each get offset (i # is) =
     (case get (js_add offset (Num (of_nat (i * 4)))) of
        Inl e \<Rightarrow> Inl e
      | Inr v \<Rightarrow> (case read_each get offset is of Inl e \<Rightarrow> Inl e | Inr vs \<Rightarrow> Inr (v # vs)))"

definition readFloats :: "8 word list \<Rightarrow> jsnum \<Rightarrow> nat \<Rightarrow> js_error + jsnum list" where
  "readFloats view offset n = read_each (getFloat32 view) offset [0..<n]"

definition readUints :: "8 word list \<Rightarrow> jsnum \<Rightarrow> nat \<Rightarrow> js_error + jsnum list" where
  "readUints view offset n = read_each (getUint32 view) offset [0..<n]"

subsection \<open>\<^verbatim>\<open>parsePlyMetadata\<close>\<close>

text \<open>
  \<open>elementMap\<close> and \<open>elementOffsets\<close> are the two \<^verbatim>\<open>Map\<close>s of the source: a later
  element of the same name replaces an earlier one. \<open>present m name\<close> is the test
  \<^verbatim>\<open>el && el.count >= 1\<close> on \<^verbatim>\<open>m.get(name)\<close>.

  The four blocks "read ... if present" are \<open>read_image_size\<close>, \<open>read_intrinsic\<close>,
  \<open>read_extrinsic\<close> and \<open>read_color_space\<close>; each returns the exception of its read, or
  the updated record and heap (\<^verbatim>\<open>values[i] ?? d\<close> never takes its default: a read value
  is a number). \<open>parse_body\<close> runs them in order from
  \<^verbatim>\<open>{ ...DEFAULT_METADATA, hasMetadata: true }\<close>; a later exception does not undo an
  earlier \<^verbatim>\<open>set\<close> on a shared matrix. \<open>try_block\<close> is the body of \<^verbatim>\<open>try\<close> after the
  header has been parsed from the first 10000 bytes (\<open>buffer_header\<close>), and
  \<open>parsePlyMetadata\<close> adds the \<^verbatim>\<open>catch\<close>.
\<close>

definition decodeColorSpace :: "jsnum \<Rightarrow> ColorSpace" where
  "decodeColorSpace v = (if v = Num 0 then linearRGB else sRGB)"

definition elementMap :: "ElementInfo list \<Rightarrow> jsstring \<rightharpoonup> ElementInfo" where
  "elementMap els = map_of (rev (map (\<lambda>el. (el_name el, el)) els))"

fun element_offsets :: "jsnum \<Rightarrow> ElementInfo list \<Rightarrow> (jsstring \<times> jsnum) list" where
  "element_offsets offset [] = []"
| "element_offsets offset (el # els) =
     (el_name el, offset) #
     element_offsets (js_add offset (js_mul (count el) (Num (of_nat (bytesPerElement el))))) els"

definition elementOffsets :: "PlyHeader \<Rightarrow> jsstring \<rightharpoonup> jsnum" where
  "elementOffsets hdr =
     map_of (rev (element_offsets (Num (of_nat (headerEndIndex hdr))) (elements hdr)))"

definition Map_has :: "('k \<rightharpoonup> 'v) \<Rightarrow> 'k \<Rightarrow> bool" where
  "Map_has m k \<longleftrightarrow> m k \<noteq> None"

definition present :: "(jsstring \<rightharpoonup> ElementInfo) \<Rightarrow> jsstring \<Rightarrow> ElementInfo option" where
  "present m name =
     (case m name of
        Some el \<Rightarrow> if js_le (Num 1) (count el) then Some el else None
      | None \<Rightarrow> None)"

definition read_image_size ::
  "PlyHeader \<Rightarrow> 8 word list \<Rightarrow> PlyMetadata \<Rightarrow> js_error + PlyMetadata" where
  "read_image_size hdr view metadata =
     (case present (elementMap (elements hdr)) (lit ''image_size'') of
        None \<Rightarrow> Inr metadata
      | Some imageSizeEl \<Rightarrow>
          (case elementOffsets hdr (lit ''image_size'') of
             None \<Rightarrow> Inr metadata
           | Some imageSizeOffset \<Rightarrow>
               (case readUints view imageSizeOffset 2 of
                  Inl e \<Rightarrow> Inl e
                | Inr vals \<Rightarrow> Inr (metadata\<lparr>imageSize := (vals ! 0, vals ! 1)\<rparr>))))"

definition read_intrinsic ::
  "PlyHeader \<Rightarrow> 8 word list \<Rightarrow> PlyMetadata \<times> heap \<Rightarrow> js_error + PlyMetadata \<times> heap" where
  "read_intrinsic hdr view mh =
     (case mh of (metadata, h) \<Rightarrow>
      case present (elementMap (elements hdr)) (lit ''intrinsic'') of
        None \<Rightarrow> Inr (metadata, h)
      | Some intrinsicEl \<Rightarrow>
          (case elementOffsets hdr (lit ''intrinsic'') of
             None \<Rightarrow> Inr (metadata, h)
           | Some intrinsicOffset \<Rightarrow>
               let propCount = length (properties intrinsicEl) in
               if propCount = 9 then
                 (case readFloats view intrinsicOffset 9 of
                    Inl e \<Rightarrow> Inl e
                  | Inr vals \<Rightarrow>
                      Inr (metadata\<lparr>focalLength :=
                             js_div (js_add (vals ! 0) (vals ! 4)) (Num 2)\<rparr>,
                           h(intrinsics metadata := Matrix3_set vals)))
               else if propCount = 4 then
                 (case readFloats view intrinsicOffset 4 of
                    Inl e \<Rightarrow> Inl e
                  | Inr vals \<Rightarrow>
                      let metadata1 = metadata\<lparr>focalLength :=
                            js_div (js_add (vals ! 0) (vals ! 1)) (Num 2)\<rparr>
                      in if \<not> Map_has (elementMap (elements hdr)) (lit ''image_size'')
                         then Inr (metadata1\<lparr>imageSize :=
                                     (js_round (vals ! 2), js_round (vals ! 3))\<rparr>, h)
                         else Inr (metadata1, h))
               else Inr (metadata, h)))"

definition read_extrinsic ::
  "PlyHeader \<Rightarrow> 8 word list \<Rightarrow> PlyMetadata \<times> heap \<Rightarrow> js_error + PlyMetadata \<times> heap" where
  "read_extrinsic hdr view mh =
     (case mh of (metadata, h) \<Rightarrow>
      case present (elementMap (elements hdr)) (lit ''extrinsic'') of
        None \<Rightarrow> Inr (metadata, h)
      | Some extrinsicEl \<Rightarrow>
          (case elementOffsets hdr (lit ''extrinsic'') of
             None \<Rightarrow> Inr (metadata, h)
           | Some extrinsicOffset \<Rightarrow>
               let propCount = length (properties extrinsicEl) in
               if propCount = 16 then
                 (case readFloats view extrinsicOffset 16 of
                    Inl e \<Rightarrow> Inl e
                  | Inr v \<Rightarrow>
                      Inr (metadata,
                           h(extrinsics metadata := Matrix4_set
                              [v ! 0, v ! 4, v ! 8, v ! 12, v ! 1, v ! 5, v ! 9, v ! 13,
                               v ! 2, v ! 6, v ! 10, v ! 14, v ! 3, v ! 7, v ! 11, v ! 15])))
               else if propCount = 12 then
                 (case readFloats view extrinsicOffset 12 of
                    Inl e \<Rightarrow> Inl e
                  | Inr v \<Rightarrow>
                      Inr (metadata,
                           h(extrinsics metadata := Matrix4_set
                              [v ! 0, v ! 4, v ! 8, Num 0, v ! 1, v ! 5, v ! 9, Num 0,
                               v ! 2, v ! 6, v ! 10, Num 0, v ! 3, v ! 7, v ! 11, Num 1])))
               else Inr (metadata, h)))"

definition read_color_space ::
  "PlyHeader \<Rightarrow> 8 word list \<Rightarrow> PlyMetadata \<times> heap \<Rightarrow> js_error + PlyMetadata \<times> heap" where
  "read_color_space hdr view mh =
     (case mh of (metadata, h) \<Rightarrow>
      case present (elementMap (elements hdr)) (lit ''color_space'') of
        None \<Rightarrow> Inr (metadata, h)
      | Some colorSpaceEl \<Rightarrow>
          (case elementOffsets hdr (lit ''color_space'') of
             None \<Rightarrow> Inr (metadata, h)
           | Some colorSpaceOffset \<Rightarrow>
               (case getUint8 view colorSpaceOffset of
                  Inl e \<Rightarrow> Inl e
                | Inr v \<Rightarrow> Inr (metadata\<lparr>colorSpace := decodeColorSpace v\<rparr>, h))))"

definition parse_body :: "PlyHeader \<Rightarrow> 8 word list \<Rightarrow> heap \<Rightarrow> (js_error + PlyMetadata) \<times> heap" where
  "parse_body hdr view h =
     (case read_image_size hdr view (DEFAULT_METADATA\<lparr>hasMetadata := True\<rparr>) of
        Inl e \<Rightarrow> (Inl e, h)
      | Inr m1 \<Rightarrow>
          (case read_intrinsic hdr view (m1, h) of
             Inl e \<Rightarrow> (Inl e, h)
           | Inr (m2, h2) \<Rightarrow>
               (case read_extrinsic hdr view (m2, h2) of
                  Inl e \<Rightarrow> (Inl e, h2)
                | Inr (m3, h3) \<Rightarrow>
                    (case read_color_space hdr view (m3, h3) of
                       Inl e \<Rightarrow> (Inl e, h3)
                     | Inr (m4, h4) \<Rightarrow> (Inr m4, h4)))))"

definition try_block :: "PlyHeader \<Rightarrow> 8 word list \<Rightarrow> heap \<Rightarrow> (js_error + PlyMetadata) \<times> heap" where
  "try_block hdr buffer h =
     (if format hdr \<noteq> binary_little_endian then (Inr DEFAULT_METADATA, h)
      else
        let m = elementMap (elements hdr);
            hasIntrinsic = (Map_has m (lit ''intrinsic'') \<or> Map_has m (lit ''supplement''));
            hasImageSize = Map_has m (lit ''image_size'')
        in if \<not> hasIntrinsic \<and> \<not> hasImageSize then (Inr DEFAULT_METADATA, h)
           else parse_body hdr buffer h)"

definition buffer_header :: "8 word list \<Rightarrow> PlyHeader" where
  "buffer_header buffer = parsePlyHeader (TextDecoder_decode (take 10000 buffer))"

definition parsePlyMetadata :: "8 word list \<Rightarrow> heap \<Rightarrow> PlyMetadata \<times> heap" where
  "parsePlyMetadata buffer h =
     (case try_block (buffer_header buffer) buffer h of
        (Inl e, h') \<Rightarrow> (DEFAULT_METADATA, h')
      | (Inr metadata, h') \<Rightarrow> (metadata, h'))"

text \<open>Whether the header declares one of the elements that let the decoding start.\<close>

definition declares_metadata :: "PlyHeader \<Rightarrow> bool" where
  "declares_metadata hdr \<longleftrightarrow>
     Map_has (elementMap (elements hdr)) (lit ''intrinsic'')
     \<or> Map_has (elementMap (elements hdr)) (lit ''supplement'')
     \<or> Map_has (elementMap (elements hdr)) (lit ''image_size'')"

subsection \<open>Sample files\<close>

text \<open>A header is written as its lines, each ended by a line feed, in ASCII.\<close>

definition ascii_text :: "string \<Rightarrow> bool" where
  "ascii_text s \<longleftrightarrow> list_all (\<lambda>c. (of_char c :: nat) < 128) s"

definition ascii_bytes :: "string \<Rightarrow> 8 word list" where
  "ascii_bytes s = map (\<lambda>c. of_nat (of_char c)) s"

definition ply_text :: "string list \<Rightarrow> string" where
  "ply_text ls = concat (map (\<lambda>l. l @ [CHR 0x0A]) ls)"

definition legacy_intrinsic :: "string list" where
  "legacy_intrinsic =
     [''element intrinsic 1'', ''property float fx'', ''property float fy'',
      ''property float width'', ''property float height'']"

text \<open>The four floats 500, 500, 640, 480 and the byte 1.\<close>

definition legacy_body :: "8 word list" where
  "legacy_body =
     [0x00, 0x00, 0xFA, 0x43, 0x00, 0x00, 0xFA, 0x43, 0x00, 0x00, 0x20, 0x44,
      0x00, 0x00, 0xF0, 0x43, 0x01]"

definition roundtrip_header :: string where
  "roundtrip_header =
     ply_text ([''ply'', ''format binary_little_endian 1.0''] @ legacy_intrinsic @
       [''element color_space 1'', ''property uchar value'', ''end_header''])"

definition roundtrip_file :: "8 word list" where
  "roundtrip_file = ascii_bytes roundtrip_header @ legacy_body"




text \<open>A file in the text format.\<close>

definition ascii_header :: string where
  "ascii_header = ply_text ([''ply'', ''format ascii 1.0''] @ legacy_intrinsic @ [''end_header''])"

definition ascii_file :: "8 word list" where
  "ascii_file = ascii_bytes ascii_header"

text \<open>An image size of 640 by 480 and the 4 by 4 extrinsic matrix, stored row by row, of
  the translation by \<open>(5, 6, 7)\<close>.\<close>

definition extrinsic_header :: string where
  "extrinsic_header =
     ply_text [''ply'', ''format binary_little_endian 1.0'',
       ''element image_size 1'', ''property uint width'', ''property uint height'',
       ''element extrinsic 1'',
       ''property float m00'', ''property float m01'', ''property float m02'', ''property float m03'',
       ''property float m10'', ''property float m11'', ''property float m12'', ''property float m13'',
       ''property float m20'', ''property float m21'', ''property float m22'', ''property float m23'',
       ''property float m30'', ''property float m31'', ''property float m32'', ''property float m33'',
       ''end_header'']"

definition extrinsic_body :: "8 word list" where
  "extrinsic_body =
     [0x80, 0x02, 0x00, 0x00, 0xE0, 0x01, 0x00, 0x00,
      0x00, 0x00, 0x80, 0x3F, 0x00, 0x00, 0x00, 0x00, 0x00, 0x00, 0x00, 0x00, 0x00, 0x00, 0xA0, 0x40,
      0x00, 0x00, 0x00, 0x00, 0x00, 0x00, 0x80, 0x3F, 0x00, 0x00, 0x00, 0x00, 0x00, 0x00, 0xC0, 0x40,
      0x00, 0x00, 0x00, 0x00, 0x00, 0x00, 0x00, 0x00, 0x00, 0x00, 0x80, 0x3F, 0x00, 0x00, 0xE0, 0x40,
      0x00, 0x00, 0x00, 0x00, 0x00, 0x00, 0x00, 0x00, 0x00, 0x00, 0x00, 0x00, 0x00, 0x00, 0x80, 0x3F]"

definition extrinsic_file :: "8 word list" where
  "extrinsic_file = ascii_bytes extrinsic_header @ extrinsic_body"

text \<open>The 3 by 3 intrinsic matrix with focal length 500 and principal point
  \<open>(320, 240)\<close>.\<close>

definition intrinsic9_header :: string where
  "intrinsic9_header =
     ply_text [''ply'', ''format binary_little_endian 1.0'', ''element intrinsic 1'',
       ''property float k0'', ''property float k1'', ''property float k2'',
       ''property float k3'', ''property float k4'', ''property float k5'',
       ''property float k6'', ''property float k7'', ''property float k8'',
       ''end_header'']"

definition intrinsic9_body :: "8 word list" where
  "intrinsic9_body =
     [0x00, 0x00, 0xFA, 0x43, 0x00, 0x00, 0x00, 0x00, 0x00, 0x00, 0xA0, 0x43,
      0x00, 0x00, 0x00, 0x00, 0x00, 0x00, 0xFA, 0x43, 0x00, 0x00, 0x70, 0x43,
      0x00, 0x00, 0x00, 0x00, 0x00, 0x00, 0x00, 0x00, 0x00, 0x00, 0x80, 0x3F]"

definition intrinsic9_file :: "8 word list" where
  "intrinsic9_file = ascii_bytes intrinsic9_header @ intrinsic9_body"

text \<open>A header padded with empty lines: its first 10000 bytes hold the \<^verbatim>\<open>format\<close>
  line only, the element declarations and \<^verbatim>\<open>end_header\<close> follow them.\<close>

definition padded_start :: "8 word list" where
  "padded_start =
     ascii_bytes (ply_text [''ply'', ''format binary_little_endian 1.0'']
       @ replicate 9964 (CHR 0x0A))"

definition padded_rest :: "8 word list" where
  "padded_rest = ascii_bytes (ply_text (legacy_intrinsic @ [''end_header''])) @ legacy_body"










subsection \<open>Evaluating the decoder and the header loop\<close>

lemma parse_lines_next:
  "trim line \<noteq> lit ''end_header'' \<Longrightarrow>
   parse_lines (line # rest) st =
   parse_lines rest
     (header_line (trim line) (st\<lparr>byteOffset := byteOffset st + (length line + 1)\<rparr>))"
  by (simp add: Let_def)

lemma parse_lines_end:
  "trim line = lit ''end_header'' \<Longrightarrow>
   parse_lines (line # rest) st =
   st\<lparr>byteOffset := byteOffset st + (length line + 1),
      st_headerEndIndex := byteOffset st + (length line + 1)\<rparr>"
  by (simp add: Let_def)

lemmas header_eval =
  lit_def header_line_def startsWith_def split_whitespace_def trim_def is_ws_def Let_def
  save_current_def
  parseInt10_def is_digit_def digits_value_def getPropertyByteSize_def parsePlyHeader_def
  split_newline_def ply_text_def legacy_intrinsic_def parse_lines_next parse_lines_end

lemma utf8_run_ascii:
  assumes "\<forall>b \<in> set bs. b < 128"
  shows "utf8_run utf8_initial (bs @ rest) = bs @ utf8_run utf8_initial rest"
  using assms
proof (induction bs)
  case Nil
  then show ?case by simp
next
  case (Cons b bs)
  then have "utf8_step utf8_initial b = ([b], utf8_initial)"
    by (simp add: utf8_step_def utf8_lead_def utf8_initial_def)
  then show ?case using Cons by simp
qed

lemma concat_utf16_ascii:
  assumes "\<forall>b \<in> set bs. b < 128"
  shows "concat (map utf16_units (bs @ rest)) = bs @ concat (map utf16_units rest)"
  using assms by (induction bs) simp_all

lemma unat_ascii_bytes: "ascii_text s \<Longrightarrow> map unat (ascii_bytes s) = lit s"
proof (induction s)
  case Nil
  then show ?case by (simp add: ascii_bytes_def lit_def)
next
  case (Cons c s)
  then have c: "(of_char c :: nat) < 128" and s: "ascii_text s"
    by (simp_all add: ascii_text_def)
  have "unat (of_nat (of_char c) :: 8 word) = of_char c mod 256"
    by (simp add: unat_of_nat)
  also have "\<dots> = of_char c" using c by simp
  finally show ?case using Cons.IH [OF s] by (simp add: ascii_bytes_def lit_def)
qed

lemma lit_ascii: "ascii_text s \<Longrightarrow> \<forall>b \<in> set (lit s). b < 128"
  by (auto simp: ascii_text_def lit_def list_all_iff)

lemma decode_ascii:
  assumes "ascii_text s" "s \<noteq> []"
  shows "TextDecoder_decode (ascii_bytes s @ rest) =
         lit s @ concat (map utf16_units (utf8_run utf8_initial (map unat rest)))"
proof -
  have a: "\<forall>b \<in> set (lit s). b < 128" using assms(1) by (rule lit_ascii)
  have r: "utf8_run utf8_initial (map unat (ascii_bytes s @ rest)) =
      lit s @ utf8_run utf8_initial (map unat rest)"
    using utf8_run_ascii [OF a] unat_ascii_bytes [OF assms(1)] by simp
  obtain c cs where cs: "lit s = c # cs" using assms(2) by (cases s) (simp_all add: lit_def)
  then have "c < 128" using a by simp
  then have "strip_bom (lit s @ t) = lit s @ t" for t by (simp add: cs)
  then show ?thesis
    unfolding TextDecoder_decode_def r using concat_utf16_ascii [OF a] by simp
qed

lemma decode_ascii_only:
  assumes "ascii_text s" "s \<noteq> []"
  shows "TextDecoder_decode (ascii_bytes s) = lit s"
  using decode_ascii [OF assms, of "[]"] by (simp add: utf8_initial_def)

lemma upt_2: "[0..<2] = [0, 1]"
  by (simp add: numeral_eq_Suc)

lemma upt_4: "[0..<4] = [0, 1, 2, 3]"
  by (simp add: numeral_eq_Suc)

lemma upt_9: "[0..<9] = [0, 1, 2, 3, 4, 5, 6, 7, 8]"
  by (simp add: numeral_eq_Suc)

lemma upt_16: "[0..<16] = [0, 1, 2, 3, 4, 5, 6, 7, 8, 9, 10, 11, 12, 13, 14, 15]"
  by (simp add: numeral_eq_Suc)

lemmas read_eval =
  readFloats_def readUints_def upt_2 upt_4 upt_9 upt_16 getFloat32_def getUint32_def
  getUint8_def view_bytes_def little_endian_def float32_value_def float32_of_fields_def

subsection \<open>What a returned record can be\<close>







lemma try_block_skips:
  "\<not> (format hdr = binary_little_endian \<and> declares_metadata hdr) \<Longrightarrow>
   try_block hdr buffer h = (Inr DEFAULT_METADATA, h)"
  by (auto simp: try_block_def declares_metadata_def Let_def)

lemma try_block_parses:
  "format hdr = binary_little_endian \<Longrightarrow> declares_metadata hdr \<Longrightarrow>
   try_block hdr buffer h = parse_body hdr buffer h"
  by (auto simp: try_block_def declares_metadata_def Let_def)



subsection \<open>The sample files, decoded\<close>

definition legacy_intrinsic_el :: ElementInfo where
  "legacy_intrinsic_el =
     \<lparr>el_name = lit ''intrinsic'', count = Num 1,
       properties =
         [\<lparr>prop_name = lit ''fx'', prop_type = lit ''float'', byteSize = 4\<rparr>,
          \<lparr>prop_name = lit ''fy'', prop_type = lit ''float'', byteSize = 4\<rparr>,
          \<lparr>prop_name = lit ''width'', prop_type = lit ''float'', byteSize = 4\<rparr>,
          \<lparr>prop_name = lit ''height'', prop_type = lit ''float'', byteSize = 4\<rparr>],
       bytesPerElement = 16\<rparr>"




lemma roundtrip_header_length: "length (ascii_bytes roundtrip_header) = 189"
  by (simp add: ascii_bytes_def roundtrip_header_def ply_text_def legacy_intrinsic_def)






lemma roundtrip_reads:
  "readFloats roundtrip_file (Num 189) 4 = Inr [Num 500, Num 500, Num 640, Num 480]"
  "getUint8 roundtrip_file (Num 205) = Inr (Num 1)"
  by (simp_all add: read_eval roundtrip_file_def roundtrip_header_length legacy_body_def)


subsection \<open>Reads at an offset where the bytes are known\<close>








subsection \<open>Decoding a well-formed file\<close>



subsection \<open>Sample files of the class, and one outside it\<close>


























subsection \<open>Unsupported formats\<close>

text \<open>A header line that declares the little-endian binary format, as the specification words it:
  a line \<^verbatim>\<open>format binary_little_endian ...\<close>, surrounding white space apart.\<close>

definition declares_little_endian :: "jsstring \<Rightarrow> bool" where
  "declares_little_endian line \<longleftrightarrow>
     startsWith (trim line) (lit ''format '')
     \<and> take 1 (drop 1 (split_whitespace (trim line))) = [lit ''binary_little_endian'']"

lemma second_part: "take 1 (drop 1 parts) = [p] \<longleftrightarrow> 1 < length parts \<and> parts ! 1 = p"
proof (cases parts)
  case Nil
  then show ?thesis by simp
next
  case (Cons a as)
  then show ?thesis by (cases as) auto
qed

lemma save_current_format [simp]: "st_format (save_current st) = st_format st"
  by (simp add: save_current_def split: option.splits)

lemma header_line_format:
  assumes "\<not> declares_little_endian line" "st_format st \<noteq> binary_little_endian"
  shows "st_format (header_line (trim line) st) \<noteq> binary_little_endian"
  using assms unfolding header_line_def declares_little_endian_def second_part Let_def
  by (auto split: option.splits)

lemma parse_lines_format:
  assumes "\<forall>line \<in> set lines. \<not> declares_little_endian line"
    "st_format st \<noteq> binary_little_endian"
  shows "st_format (parse_lines lines st) \<noteq> binary_little_endian"
  using assms
proof (induction lines arbitrary: st)
  case Nil
  then show ?case by simp
next
  case (Cons line lines)
  let ?st1 = "st\<lparr>byteOffset := byteOffset st + (length line + 1)\<rparr>"
  have "st_format ?st1 \<noteq> binary_little_endian" using Cons.prems(2) by simp
  then have "st_format (header_line (trim line) ?st1) \<noteq> binary_little_endian"
    using Cons.prems(1) by (intro header_line_format) simp_all
  then have "st_format (parse_lines lines (header_line (trim line) ?st1)) \<noteq> binary_little_endian"
    using Cons.prems(1) by (intro Cons.IH) simp_all
  then show ?case using Cons.prems(2) by (simp add: Let_def)
qed

lemma no_format_line:
  assumes "\<forall>line \<in> set (split_newline text). \<not> declares_little_endian line"
  shows "format (parsePlyHeader text) \<noteq> binary_little_endian"
  unfolding parsePlyHeader_def Let_def
  using parse_lines_format [OF assms,
      of "\<lparr>objects = [], pushed = [], currentElement = None, st_headerEndIndex = 0,
           byteOffset = 0, st_format = ascii\<rparr>"]
  by simp

text \<open>
  C7. When no line of the header text, the first 10000 bytes decoded, declares
  \<^verbatim>\<open>format binary_little_endian\<close> (the header declares \<^verbatim>\<open>ascii\<close>,
  \<^verbatim>\<open>binary_big_endian\<close>, another format or none), and more generally whenever the
  parsed header reports a format other than \<^verbatim>\<open>binary_little_endian\<close>,
  \<^verbatim>\<open>parsePlyMetadata\<close> returns the default record without reading the body or touching
  the shared matrices: \<open>hasMetadata\<close> is false and the image size is 640 by 480.
\<close>

theorem parsePlyMetadata_unsupported_format:
  assumes "format (buffer_header buffer) \<noteq> binary_little_endian
     \<or> (\<forall>line \<in> set (split_newline (TextDecoder_decode (take 10000 buffer))).
           \<not> declares_little_endian line)"
  shows "parsePlyMetadata buffer h = (DEFAULT_METADATA, h)
       \<and> \<not> hasMetadata (fst (parsePlyMetadata buffer h))
       \<and> imageSize (fst (parsePlyMetadata buffer h)) = (Num 640, Num 480)"
proof -
  have "format (buffer_header buffer) \<noteq> binary_little_endian"
    using assms no_format_line unfolding buffer_header_def by blast
  then have "parsePlyMetadata buffer h = (DEFAULT_METADATA, h)"
    by (simp add: parsePlyMetadata_def try_block_skips)
  then show ?thesis by (simp add: DEFAULT_METADATA_def)
qed

lemma ascii_file_ascii: "ascii_text ascii_header" "ascii_header \<noteq> []"
  by (simp_all add: ascii_text_def ascii_header_def ply_text_def legacy_intrinsic_def)

lemma ascii_file_text: "TextDecoder_decode (take 10000 ascii_file) = lit ascii_header"
proof -
  have "length ascii_file = 131"
    by (simp add: ascii_file_def ascii_bytes_def ascii_header_def ply_text_def
        legacy_intrinsic_def)
  then have "take 10000 ascii_file = ascii_bytes ascii_header" by (simp add: ascii_file_def)
  then show ?thesis by (simp add: decode_ascii_only [OF ascii_file_ascii])
qed

lemma ascii_file_lines:
  "\<forall>line \<in> set (split_newline (TextDecoder_decode (take 10000 ascii_file))).
     \<not> declares_little_endian line"
  unfolding ascii_file_text
  by (simp add: ascii_header_def ply_text_def legacy_intrinsic_def lit_def split_newline_def
      declares_little_endian_def startsWith_def trim_def is_ws_def split_whitespace_def)

theorem parsePlyMetadata_unsupported_format_witness:
  "list_all (\<lambda>line. \<not> declares_little_endian line)
     (split_newline (TextDecoder_decode (take 10000 ascii_file)))
   \<and> parsePlyMetadata ascii_file initial_heap = (DEFAULT_METADATA, initial_heap)
   \<and> imageSize (fst (parsePlyMetadata ascii_file initial_heap)) = (Num 640, Num 480)"
proof -
  have f: "format (buffer_header ascii_file) \<noteq> binary_little_endian
     \<or> (\<forall>line \<in> set (split_newline (TextDecoder_decode (take 10000 ascii_file))).
           \<not> declares_little_endian line)"
    using ascii_file_lines by blast
  have l: "list_all (\<lambda>line. \<not> declares_little_endian line)
     (split_newline (TextDecoder_decode (take 10000 ascii_file)))"
    using ascii_file_lines by (simp only: list_all_iff)
  show ?thesis
    using parsePlyMetadata_unsupported_format [OF f, of initial_heap] l
    by (simp add: DEFAULT_METADATA_def)
qed

lemma ascii_file_hdr:
  "buffer_header ascii_file =
     \<lparr>headerEndIndex = 131, elements = [legacy_intrinsic_el], format = ascii\<rparr>"
  unfolding buffer_header_def ascii_file_text legacy_intrinsic_el_def
  by (simp add: ascii_header_def header_eval del: parse_lines.simps(2))

subsection \<open>Exceptions and undetected anomalies\<close>



















subsection \<open>The header is read from the first 10000 bytes\<close>

lemma split_on_replicate: "split_on sep cur (replicate n sep) = rev cur # replicate n []"
  by (induction n arbitrary: cur) simp_all

lemma header_line_empty: "header_line [] st = st"
  by (simp add: header_line_def startsWith_def lit_def)

lemma parse_lines_empty:
  "parse_lines (replicate n []) st = st\<lparr>byteOffset := byteOffset st + n\<rparr>"
proof (induction n arbitrary: st)
  case 0
  then show ?case by simp
next
  case (Suc n)
  have t: "trim [] = []" by (simp add: trim_def)
  then have "trim [] \<noteq> lit ''end_header''" by (simp add: lit_def)
  then have "parse_lines (replicate (Suc n) []) st =
      parse_lines (replicate n []) (st\<lparr>byteOffset := byteOffset st + 1\<rparr>)"
    by (simp add: parse_lines_next t header_line_empty del: parse_lines.simps(2))
  then show ?case by (simp add: Suc del: parse_lines.simps(2))
qed

lemma padded_parse:
  "parsePlyHeader (lit (ply_text [''ply'', ''format binary_little_endian 1.0'']) @ replicate n 10) =
     \<lparr>headerEndIndex = 0, elements = [], format = binary_little_endian\<rparr>"
proof -
  have "split_newline (lit (ply_text [''ply'', ''format binary_little_endian 1.0'']) @ replicate n 10)
      = [lit ''ply'', lit ''format binary_little_endian 1.0''] @ replicate (Suc n) []"
    by (simp add: split_newline_def ply_text_def lit_def split_on_replicate)
  then show ?thesis
    unfolding parsePlyHeader_def
    by (simp add: parse_lines_empty header_eval del: parse_lines.simps(2) replicate.simps)
qed

lemma padded_start_text:
  "length padded_start = 10000"
  "TextDecoder_decode padded_start =
     lit (ply_text [''ply'', ''format binary_little_endian 1.0'']) @ replicate 9964 10"
proof -
  let ?s = "ply_text [''ply'', ''format binary_little_endian 1.0''] @ replicate 9964 (CHR 0x0A)"
  show "length padded_start = 10000"
    by (simp add: padded_start_def ascii_bytes_def ply_text_def)
  have "ascii_text ?s" "?s \<noteq> []"
    by (simp_all add: ascii_text_def ply_text_def list_all_iff)
  then have "TextDecoder_decode (ascii_bytes ?s) = lit ?s" by (rule decode_ascii_only)
  then show "TextDecoder_decode padded_start =
     lit (ply_text [''ply'', ''format binary_little_endian 1.0'']) @ replicate 9964 10"
    by (simp add: padded_start_def lit_def)
qed

text \<open>
  C10. The header is decoded from the first 10000 bytes of the buffer alone: whatever
  follows them, an \<^verbatim>\<open>end_header\<close> line or element declarations, has no part in the
  header that is parsed, which is the header of the buffer cut after byte 10000; the
  result is the one of the \<^verbatim>\<open>try\<close> block run with that header on the whole buffer.
\<close>

theorem header_window:
  assumes "length pre = 10000"
  shows "buffer_header (pre @ post) = buffer_header pre
       \<and> buffer_header pre = parsePlyHeader (TextDecoder_decode pre)
       \<and> parsePlyMetadata (pre @ post) h =
           (case try_block (buffer_header pre) (pre @ post) h of
              (Inl e, h') \<Rightarrow> (DEFAULT_METADATA, h')
            | (Inr metadata, h') \<Rightarrow> (metadata, h'))"
  using assms by (simp add: buffer_header_def parsePlyMetadata_def)


text \<open>In the padded file the intrinsic element is declared after byte 10000: the header
  that is parsed has no element and no end, and the result is the default record.\<close>

theorem header_window_witness:
  "length padded_start = 10000
   \<and> buffer_header (padded_start @ padded_rest) =
       \<lparr>headerEndIndex = 0, elements = [], format = binary_little_endian\<rparr>
   \<and> parsePlyMetadata (padded_start @ padded_rest) initial_heap =
       (DEFAULT_METADATA, initial_heap)"
proof -
  let ?hdr = "\<lparr>headerEndIndex = 0, elements = [], format = binary_little_endian\<rparr>"
  have "parsePlyHeader (TextDecoder_decode padded_start) = ?hdr"
    unfolding padded_start_text(2) by (rule padded_parse)
  then have p: "buffer_header padded_start = ?hdr"
    by (simp add: buffer_header_def padded_start_text(1))
  have "\<not> declares_metadata ?hdr"
    by (simp add: declares_metadata_def Map_has_def elementMap_def)
  then have t: "try_block ?hdr buffer h = (Inr DEFAULT_METADATA, h)" for buffer h
    by (simp add: try_block_skips)
  show ?thesis
    using header_window [OF padded_start_text(1), of padded_rest initial_heap]
    by (simp add: p t padded_start_text(1))
qed

subsection \<open>The matrices\<close>

definition image_size_el :: ElementInfo where
  "image_size_el =
     \<lparr>el_name = lit ''image_size'', count = Num 1,
       properties =
         [\<lparr>prop_name = lit ''width'', prop_type = lit ''uint'', byteSize = 4\<rparr>,
          \<lparr>prop_name = lit ''height'', prop_type = lit ''uint'', byteSize = 4\<rparr>],
       bytesPerElement = 8\<rparr>"

definition float_properties :: "string list \<Rightarrow> PropertyInfo list" where
  "float_properties names =
     map (\<lambda>n. \<lparr>prop_name = lit n, prop_type = lit ''float'', byteSize = 4\<rparr>) names"

definition extrinsic_el :: ElementInfo where
  "extrinsic_el =
     \<lparr>el_name = lit ''extrinsic'', count = Num 1,
       properties = float_properties
         [''m00'', ''m01'', ''m02'', ''m03'', ''m10'', ''m11'', ''m12'', ''m13'',
          ''m20'', ''m21'', ''m22'', ''m23'', ''m30'', ''m31'', ''m32'', ''m33''],
       bytesPerElement = 64\<rparr>"

definition extrinsic_hdr :: PlyHeader where
  "extrinsic_hdr =
     \<lparr>headerEndIndex = 433, elements = [image_size_el, extrinsic_el],
      format = binary_little_endian\<rparr>"

lemma extrinsic_ascii: "ascii_text extrinsic_header" "extrinsic_header \<noteq> []"
  by (simp_all add: ascii_text_def extrinsic_header_def ply_text_def)

lemma extrinsic_header_length: "length (ascii_bytes extrinsic_header) = 433"
  by (simp add: ascii_bytes_def extrinsic_header_def ply_text_def)

lemma extrinsic_hdr: "buffer_header extrinsic_file = extrinsic_hdr"
proof -
  have "take 10000 extrinsic_file = ascii_bytes extrinsic_header @ extrinsic_body"
    by (simp add: extrinsic_file_def extrinsic_header_length extrinsic_body_def)
  then have t: "TextDecoder_decode (take 10000 extrinsic_file) =
      lit extrinsic_header @
      concat (map utf16_units (utf8_run utf8_initial (map unat extrinsic_body)))"
    by (simp add: decode_ascii [OF extrinsic_ascii])
  show ?thesis
    unfolding buffer_header_def t extrinsic_hdr_def image_size_el_def extrinsic_el_def
      float_properties_def
    by (simp add: extrinsic_body_def utf8_initial_def utf8_step_def utf8_lead_def
        extrinsic_header_def header_eval del: parse_lines.simps(2))
qed

lemma extrinsic_map:
  "elementMap (elements extrinsic_hdr) (lit ''image_size'') = Some image_size_el"
  "elementMap (elements extrinsic_hdr) (lit ''extrinsic'') = Some extrinsic_el"
  "elementMap (elements extrinsic_hdr) (lit ''intrinsic'') = None"
  "elementMap (elements extrinsic_hdr) (lit ''color_space'') = None"
  by (simp_all add: extrinsic_hdr_def elementMap_def image_size_el_def extrinsic_el_def lit_def)

lemma extrinsic_offsets:
  "elementOffsets extrinsic_hdr (lit ''image_size'') = Some (Num 433)"
  "elementOffsets extrinsic_hdr (lit ''extrinsic'') = Some (Num 441)"
  by (simp_all add: extrinsic_hdr_def elementOffsets_def image_size_el_def extrinsic_el_def
      lit_def)

lemma extrinsic_counts:
  "length (properties extrinsic_el) = 16" "count extrinsic_el = Num 1"
  "count image_size_el = Num 1"
  by (simp_all add: extrinsic_el_def image_size_el_def float_properties_def)

lemma extrinsic_reads:
  "readUints extrinsic_file (Num 433) 2 = Inr [Num 640, Num 480]"
  "readFloats extrinsic_file (Num 441) 16 =
     Inr [Num 1, Num 0, Num 0, Num 5, Num 0, Num 1, Num 0, Num 6,
          Num 0, Num 0, Num 1, Num 7, Num 0, Num 0, Num 0, Num 1]"
  by (simp_all add: read_eval extrinsic_file_def extrinsic_header_length extrinsic_body_def)

lemma extrinsic_declares:
  "declares_metadata extrinsic_hdr" "format extrinsic_hdr = binary_little_endian"
  by (simp_all add: declares_metadata_def Map_has_def extrinsic_map) (simp add: extrinsic_hdr_def)

text \<open>The arguments that \<^verbatim>\<open>parsePlyMetadata\<close> passes to \<^verbatim>\<open>Matrix4.set\<close> are the
  sixteen stored values read column by column; \<^verbatim>\<open>set\<close> takes rows. The array
  \<^verbatim>\<open>elements\<close> becomes a copy of the stored values in their stored order.\<close>

lemma extrinsics_set_is_copy:
  assumes "length v = 16"
  shows "Matrix4_set [v ! 0, v ! 4, v ! 8, v ! 12, v ! 1, v ! 5, v ! 9, v ! 13,
                      v ! 2, v ! 6, v ! 10, v ! 14, v ! 3, v ! 7, v ! 11, v ! 15] = v"
proof -
  have "map (\<lambda>i. v ! i) [0..<length v] = v" by (rule map_nth)
  then have "v = map (\<lambda>i. v ! i) [0..<16]" unfolding assms by simp
  then have "v = [v ! 0, v ! 1, v ! 2, v ! 3, v ! 4, v ! 5, v ! 6, v ! 7,
      v ! 8, v ! 9, v ! 10, v ! 11, v ! 12, v ! 13, v ! 14, v ! 15]"
    by (simp add: upt_16)
  then show ?thesis by (simp add: Matrix4_set_def)
qed

text \<open>
  C5 (what the source does). The file \<open>extrinsic_file\<close> stores, row by row, the matrix of
  the translation by \<open>(5, 6, 7)\<close>: the value 5 is at index \<open>4 * 0 + 3\<close>. After decoding, the
  array \<^verbatim>\<open>elements\<close> of the extrinsic matrix holds the sixteen values in their stored
  order, so the entry at row 0 and column 3 is 0 and the 5 is at row 3, column 0: the
  decoded matrix is the transpose of the stored one.
\<close>

theorem extrinsics_transposed:
  "fst (parsePlyMetadata extrinsic_file initial_heap) =
     \<lparr>extrinsics = DefaultExtrinsics, intrinsics = DefaultIntrinsics,
      imageSize = (Num 640, Num 480), focalLength = Num 0, colorSpace = sRGB,
      hasMetadata = True\<rparr>
   \<and> snd (parsePlyMetadata extrinsic_file initial_heap) DefaultExtrinsics =
     [Num 1, Num 0, Num 0, Num 5, Num 0, Num 1, Num 0, Num 6,
      Num 0, Num 0, Num 1, Num 7, Num 0, Num 0, Num 0, Num 1]
   \<and> Matrix4_entry (snd (parsePlyMetadata extrinsic_file initial_heap) DefaultExtrinsics) 0 3
     = Num 0
   \<and> Matrix4_entry (snd (parsePlyMetadata extrinsic_file initial_heap) DefaultExtrinsics) 3 0
     = Num 5"
proof -
  let ?v = "[Num 1, Num 0, Num 0, Num 5, Num 0, Num 1, Num 0, Num 6,
          Num 0, Num 0, Num 1, Num 7, Num 0, Num 0, Num 0, Num 1]"
  have 1: "read_image_size extrinsic_hdr extrinsic_file m =
      Inr (m\<lparr>imageSize := (Num 640, Num 480)\<rparr>)" for m
    by (simp add: read_image_size_def present_def extrinsic_map extrinsic_offsets
        extrinsic_reads extrinsic_counts)
  have 2: "read_intrinsic extrinsic_hdr extrinsic_file (m, h) = Inr (m, h)" for m h
    by (simp add: read_intrinsic_def present_def extrinsic_map)
  have 3: "read_extrinsic extrinsic_hdr extrinsic_file (m, h) =
      Inr (m, h(extrinsics m := ?v))" for m h
    by (simp add: read_extrinsic_def present_def extrinsic_map extrinsic_offsets
        extrinsic_reads extrinsic_counts Matrix4_set_def)
  have 4: "read_color_space extrinsic_hdr extrinsic_file (m, h) = Inr (m, h)" for m h
    by (simp add: read_color_space_def present_def extrinsic_map)
  have "parsePlyMetadata extrinsic_file initial_heap =
      (\<lparr>extrinsics = DefaultExtrinsics, intrinsics = DefaultIntrinsics,
        imageSize = (Num 640, Num 480), focalLength = Num 0, colorSpace = sRGB,
        hasMetadata = True\<rparr>, initial_heap(DefaultExtrinsics := ?v))"
    unfolding parsePlyMetadata_def extrinsic_hdr
    by (simp add: try_block_parses extrinsic_declares parse_body_def 1 2 3 4
        DEFAULT_METADATA_def)
  then show ?thesis by (simp add: Matrix4_entry_def)
qed

definition intrinsic9_el :: ElementInfo where
  "intrinsic9_el =
     \<lparr>el_name = lit ''intrinsic'', count = Num 1,
       properties = float_properties
         [''k0'', ''k1'', ''k2'', ''k3'', ''k4'', ''k5'', ''k6'', ''k7'', ''k8''],
       bytesPerElement = 36\<rparr>"

definition intrinsic9_hdr :: PlyHeader where
  "intrinsic9_hdr =
     \<lparr>headerEndIndex = 229, elements = [intrinsic9_el], format = binary_little_endian\<rparr>"

lemma intrinsic9_ascii: "ascii_text intrinsic9_header" "intrinsic9_header \<noteq> []"
  by (simp_all add: ascii_text_def intrinsic9_header_def ply_text_def)

lemma intrinsic9_header_length: "length (ascii_bytes intrinsic9_header) = 229"
  by (simp add: ascii_bytes_def intrinsic9_header_def ply_text_def)

lemma intrinsic9_hdr: "buffer_header intrinsic9_file = intrinsic9_hdr"
proof -
  have "take 10000 intrinsic9_file = ascii_bytes intrinsic9_header @ intrinsic9_body"
    by (simp add: intrinsic9_file_def intrinsic9_header_length intrinsic9_body_def)
  then have t: "TextDecoder_decode (take 10000 intrinsic9_file) =
      lit intrinsic9_header @
      concat (map utf16_units (utf8_run utf8_initial (map unat intrinsic9_body)))"
    by (simp add: decode_ascii [OF intrinsic9_ascii])
  show ?thesis
    unfolding buffer_header_def t intrinsic9_hdr_def intrinsic9_el_def float_properties_def
    by (simp add: intrinsic9_body_def utf8_initial_def utf8_step_def utf8_lead_def
        intrinsic9_header_def header_eval del: parse_lines.simps(2))
qed

lemma intrinsic9_map:
  "elementMap (elements intrinsic9_hdr) (lit ''intrinsic'') = Some intrinsic9_el"
  "elementMap (elements intrinsic9_hdr) (lit ''image_size'') = None"
  "elementMap (elements intrinsic9_hdr) (lit ''extrinsic'') = None"
  "elementMap (elements intrinsic9_hdr) (lit ''color_space'') = None"
  by (simp_all add: intrinsic9_hdr_def elementMap_def intrinsic9_el_def lit_def)

lemma intrinsic9_offsets:
  "elementOffsets intrinsic9_hdr (lit ''intrinsic'') = Some (Num 229)"
  by (simp add: intrinsic9_hdr_def elementOffsets_def intrinsic9_el_def lit_def)

lemma intrinsic9_counts:
  "length (properties intrinsic9_el) = 9" "count intrinsic9_el = Num 1"
  by (simp_all add: intrinsic9_el_def float_properties_def)

lemma intrinsic9_reads:
  "readFloats intrinsic9_file (Num 229) 9 =
     Inr [Num 500, Num 0, Num 320, Num 0, Num 500, Num 240, Num 0, Num 0, Num 1]"
  by (simp add: read_eval intrinsic9_file_def intrinsic9_header_length intrinsic9_body_def)

lemma intrinsic9_declares:
  "declares_metadata intrinsic9_hdr" "format intrinsic9_hdr = binary_little_endian"
  by (simp_all add: declares_metadata_def Map_has_def intrinsic9_map)
    (simp add: intrinsic9_hdr_def)

lemma intrinsic9_result:
  "parsePlyMetadata intrinsic9_file h =
     (\<lparr>extrinsics = DefaultExtrinsics, intrinsics = DefaultIntrinsics,
       imageSize = (Num 640, Num 480), focalLength = Num 500, colorSpace = sRGB,
       hasMetadata = True\<rparr>,
      h(DefaultIntrinsics :=
        [Num 500, Num 0, Num 0, Num 0, Num 500, Num 0, Num 320, Num 240, Num 1]))"
proof -
  have 1: "read_image_size intrinsic9_hdr intrinsic9_file m = Inr m" for m
    by (simp add: read_image_size_def present_def intrinsic9_map)
  have 2: "read_intrinsic intrinsic9_hdr intrinsic9_file (m, h) =
      Inr (m\<lparr>focalLength := Num 500\<rparr>,
           h(intrinsics m :=
             [Num 500, Num 0, Num 0, Num 0, Num 500, Num 0, Num 320, Num 240, Num 1]))" for m h
    by (simp add: read_intrinsic_def present_def intrinsic9_map intrinsic9_offsets
        intrinsic9_reads intrinsic9_counts Matrix3_set_def)
  have 3: "read_extrinsic intrinsic9_hdr intrinsic9_file (m, h) = Inr (m, h)" for m h
    by (simp add: read_extrinsic_def present_def intrinsic9_map)
  have 4: "read_color_space intrinsic9_hdr intrinsic9_file (m, h) = Inr (m, h)" for m h
    by (simp add: read_color_space_def present_def intrinsic9_map)
  show ?thesis
    unfolding parsePlyMetadata_def intrinsic9_hdr
    by (simp add: try_block_parses intrinsic9_declares parse_body_def 1 2 3 4
        DEFAULT_METADATA_def)
qed

lemma ascii_file_result: "parsePlyMetadata ascii_file h = (DEFAULT_METADATA, h)"
  by (simp add: parsePlyMetadata_def try_block_skips ascii_file_hdr)

text \<open>
  C6 (what the source does). A first call, on the file in the text format, returns the
  default record, whose intrinsic matrix is the identity. A second call, on a file with a
  3 by 3 intrinsic element, writes that matrix into the \<^verbatim>\<open>Matrix3\<close> that all records
  share: the intrinsic matrix of the record returned first is no longer the identity.
\<close>

theorem shared_matrix_overwritten:
  "(case parsePlyMetadata ascii_file initial_heap of
      (first, h1) \<Rightarrow>
        (case parsePlyMetadata intrinsic9_file h1 of
           (second, h2) \<Rightarrow>
             first = DEFAULT_METADATA
             \<and> h1 (intrinsics first) = Matrix3_identity
             \<and> h2 (intrinsics first) =
                 [Num 500, Num 0, Num 0, Num 0, Num 500, Num 0, Num 320, Num 240, Num 1]
             \<and> h2 (intrinsics first) \<noteq> h1 (intrinsics first)))"
  by (simp add: ascii_file_result intrinsic9_result DEFAULT_METADATA_def initial_heap_def
      Matrix3_identity_def)

end
